(* ===== verification/Prelude.thy ===== *)
theory Prelude
  imports Main "HOL-Library.Word" "HOL-Library.Monad_Syntax"
begin

text \<open>
  Shared vocabulary of the development: the machine integers of the C code (\<open>uint8_t\<close>,
  \<open>uint16_t\<close>, \<open>uint32_t\<close>, \<open>uint64_t\<close>, \<open>size_t\<close> and pointers), the constants of
  \<open>src/src/conf.h\<close>, the little-endian memory image of an integer, the contract of such a
  codec as a locale, and the word arithmetic that the component theories use.
\<close>

unbundle bit_operations_syntax

section \<open>Machine integers and constants\<close>

type_synonym u8 = "8 word"
type_synonym u16 = "16 word"
type_synonym u32 = "32 word"
type_synonym u64 = "64 word"

definition CONF_INIT_NUM_PAGES :: u64 where "CONF_INIT_NUM_PAGES = 16"

definition CONF_START_ADDR :: u64 where "CONF_START_ADDR = 0x8000"

definition CONF_STACK_ADDR :: u64 where "CONF_STACK_ADDR = 0x7000"

definition CONF_ARGV_ADDR :: u64 where "CONF_ARGV_ADDR = 0x7100"

definition CONF_ARGS_ADDR :: u64 where "CONF_ARGS_ADDR = 0x7200"

definition CONF_PAGE_SIZE :: u64 where "CONF_PAGE_SIZE = 0x1000"

text \<open>The largest value of a C \<open>int\<close>, where an increment is undefined.\<close>

definition INT_MAX :: nat where "INT_MAX = 2147483647"

named_theorems conf_defs \<open>the constants of conf.h and of the C implementation\<close>

declare CONF_INIT_NUM_PAGES_def [conf_defs] CONF_START_ADDR_def [conf_defs]
  CONF_STACK_ADDR_def [conf_defs] CONF_ARGV_ADDR_def [conf_defs]
  CONF_ARGS_ADDR_def [conf_defs] CONF_PAGE_SIZE_def [conf_defs] INT_MAX_def [conf_defs]

section \<open>Little-endian images of integers\<close>

text \<open>
  The code reads and writes integers of guest memory through their address and
  \<open>sizeof\<close>, on a little-endian host. \<open>le_bytes n v\<close> is the image of \<open>v\<close> in \<open>n\<close>
  bytes, \<open>le_val\<close> reads an image back.
\<close>

fun le_bytes :: "nat \<Rightarrow> nat \<Rightarrow> u8 list" where
  "le_bytes 0 v = []"
| "le_bytes (Suc n) v = of_nat v # le_bytes n (v div 256)"

fun le_val :: "u8 list \<Rightarrow> nat" where
  "le_val [] = 0"
| "le_val (b # bs) = unat b + 256 * le_val bs"

lemma length_le_bytes [simp]: "length (le_bytes n v) = n"
  by (induction n arbitrary: v) auto

lemma le_bytes_zero: "le_bytes n 0 = replicate n 0"
  by (induction n) auto

lemma le_val_le_bytes: "le_val (le_bytes n v) = v mod 256 ^ n"
proof (induction n arbitrary: v)
  case 0
  then show ?case by simp
next
  case (Suc n)
  have "v mod (256 * 256 ^ n) = 256 * (v div 256 mod 256 ^ n) + v mod 256"
    by (rule mod_mult2_eq)
  then show ?case
    using Suc.IH by (simp add: unsigned_of_nat take_bit_eq_mod)
qed

lemma le_val_bound: "le_val bs < 256 ^ length bs"
proof (induction bs)
  case Nil
  then show ?case by simp
next
  case (Cons b bs)
  have "unat b < 256"
    using unsigned_less [of b, where ?'a = nat] by simp
  with Cons show ?case by simp
qed

lemma le_bytes_le_val: "le_bytes (length bs) (le_val bs) = bs"
proof (induction bs)
  case Nil
  then show ?case by simp
next
  case (Cons b bs)
  have lt: "unat b < 256"
    using unsigned_less [of b, where ?'a = nat] by simp
  have "(of_nat 256 :: u8) = 0"
    by simp
  then have "(of_nat (unat b + 256 * le_val bs) :: u8) = of_nat (unat b)"
    by (simp only: of_nat_add of_nat_mult mult_zero_left add_0_right)
  with Cons lt show ?case by simp
qed

definition bytes16 :: "u16 \<Rightarrow> u8 list" where "bytes16 w = le_bytes 2 (unat w)"

definition bytes32 :: "u32 \<Rightarrow> u8 list" where "bytes32 w = le_bytes 4 (unat w)"

definition bytes64 :: "u64 \<Rightarrow> u8 list" where "bytes64 w = le_bytes 8 (unat w)"

definition word16 :: "u8 list \<Rightarrow> u16" where "word16 bs = of_nat (le_val bs)"

definition word32 :: "u8 list \<Rightarrow> u32" where "word32 bs = of_nat (le_val bs)"

definition word64 :: "u8 list \<Rightarrow> u64" where "word64 bs = of_nat (le_val bs)"

text \<open>
  Reading \<open>bs\<close> into an integer variable whose value was \<open>old\<close> replaces its first
  bytes only: a short read leaves the others.
\<close>

definition overlay :: "('w \<Rightarrow> u8 list) \<Rightarrow> (u8 list \<Rightarrow> 'w) \<Rightarrow> 'w \<Rightarrow> u8 list \<Rightarrow> 'w" where
  "overlay enc dec old bs = dec (bs @ drop (length bs) (enc old))"

locale byte_codec =
  fixes size_of :: nat
    and enc :: "'w \<Rightarrow> u8 list"
    and dec :: "u8 list \<Rightarrow> 'w"
  assumes length_enc: "length (enc w) = size_of"
    and dec_enc: "dec (enc w) = w"
    and enc_dec: "length bs = size_of \<Longrightarrow> enc (dec bs) = bs"
begin

lemma enc_inject: "enc v = enc w \<longleftrightarrow> v = w"
  by (metis dec_enc)

lemma overlay_full: "length bs = size_of \<Longrightarrow> overlay enc dec old bs = dec bs"
  by (simp add: overlay_def length_enc)

lemma overlay_none: "overlay enc dec old [] = old"
  by (simp add: overlay_def dec_enc)

lemma overlay_enc: "overlay enc dec old (enc w) = w"
  by (simp add: overlay_full length_enc dec_enc)

end

lemma word_le_bytes: "(of_nat (le_val (le_bytes n (unat w))) :: 'a::len word) = w"
  if "LENGTH('a) = 8 * n"
proof -
  have "unat w < 2 ^ (8 * n)"
    using unsigned_less [of w, where ?'a = nat] that by simp
  then have "unat w < 256 ^ n"
    by (simp add: power_mult)
  then show ?thesis
    by (simp add: le_val_le_bytes)
qed

lemma le_bytes_word: "le_bytes n (unat (of_nat (le_val bs) :: 'a::len word)) = bs"
  if "LENGTH('a) = 8 * n" "length bs = n"
proof -
  have "le_val bs < 2 ^ LENGTH('a)"
    using le_val_bound [of bs] that by (simp add: power_mult)
  then have "unat (of_nat (le_val bs) :: 'a word) = le_val bs"
    by (simp add: unsigned_of_nat take_bit_nat_eq_self)
  then show ?thesis
    using le_bytes_le_val [of bs] that by simp
qed

interpretation codec16: byte_codec 2 bytes16 word16
  by unfold_locales (simp_all add: bytes16_def word16_def word_le_bytes le_bytes_word)

interpretation codec32: byte_codec 4 bytes32 word32
  by unfold_locales (simp_all add: bytes32_def word32_def word_le_bytes le_bytes_word)

interpretation codec64: byte_codec 8 bytes64 word64
  by unfold_locales (simp_all add: bytes64_def word64_def word_le_bytes le_bytes_word)

section \<open>Word arithmetic\<close>

lemma unat_add_small: "unat a + unat b < 2 ^ LENGTH('a) \<Longrightarrow> unat (a + b) = unat a + unat b"
  for a b :: "'a::len word"
  by (simp add: unat_word_ariths)

lemma unat_add_of_nat: "unat a + n < 2 ^ LENGTH('a) \<Longrightarrow> unat (a + of_nat n) = unat a + n"
  for a :: "'a::len word"
  by (simp add: unat_word_ariths unsigned_of_nat take_bit_nat_eq_self)

lemma unat_mul_page:
  "unat n * 4096 < 2 ^ 64 \<Longrightarrow> unat (n * CONF_PAGE_SIZE) = unat n * 4096" for n :: u64
  by (simp add: CONF_PAGE_SIZE_def unat_word_ariths)

lemma unat_diff_le: "b \<le> a \<Longrightarrow> unat (a - b) = unat a - unat b" for a b :: "'a::len word"
  by (rule unat_sub)

lemma add_of_nat_diff [simp]: "a + of_nat (unat (b - a)) = b" for a b :: "'a::len word"
  by simp

lemma word_eq_by_unat: "unat a = unat b \<Longrightarrow> a = b" for a b :: "'a::len word"
  by (simp add: word_unat_eq_iff)

lemma unat_ucast_small:
  "unat w < 2 ^ LENGTH('b) \<Longrightarrow> unat (ucast w :: 'b::len word) = unat w" for w :: "'a::len word"
  by (simp add: unsigned_ucast_eq take_bit_nat_eq_self)

lemma unat_of_nat_small:
  "n < 2 ^ LENGTH('a) \<Longrightarrow> unat (of_nat n :: 'a::len word) = n"
  by (simp add: unsigned_of_nat take_bit_nat_eq_self)

end
