(* ===== verification/Regions.thy ===== *)
theory Regions
  imports Prelude
begin

text \<open>
  The list \<open>mem_regions\<close> of \<open>src/src/vm_mem.c\<close>: regions of guest physical memory, each
  backed by a host buffer, kept in order of their addresses. This theory holds the pure
  part of the component: the list node, the first-fit search \<open>find_free_mem_region\<close>, the
  position and overlap test of \<open>map_gpa\<close> and the lookup of \<open>gpa_to_hva\<close>, with the
  well-formedness of the list and its meaning as a finite map of address intervals.
\<close>

section \<open>The list and its operations\<close>

text \<open>
  \<open>struct mem_region\<close>; its \<open>next\<close> pointer is the tail of the HOL list. A pointer is
  its address, and \<open>NULL\<close> is 0.
\<close>

record mem_region =
  r_gpa :: u64
  r_npages :: u64
  r_hva :: u64

definition r_end :: "mem_region \<Rightarrow> u64" where
  "r_end p = r_gpa p + r_npages p * CONF_PAGE_SIZE"

text \<open>The \<open>while\<close> loop of \<open>find_free_mem_region\<close>: the first gap that is wide enough.\<close>

fun find_free_loop :: "mem_region list \<Rightarrow> u64 \<Rightarrow> u64 \<Rightarrow> u64" where
  "find_free_loop [] start npages = start"
| "find_free_loop (p # ps) start npages =
     (if r_gpa p - start \<ge> npages * CONF_PAGE_SIZE then start
      else find_free_loop ps (r_end p) npages)"

definition find_free_mem_region :: "mem_region list \<Rightarrow> u64 \<Rightarrow> u64 option" where
  "find_free_mem_region rs npages =
     (if npages < 1 then None else Some (find_free_loop rs 0 npages))"

text \<open>
  The walk of \<open>map_gpa\<close>: skip the regions that end at or below \<open>gpa\<close>; then the new
  region goes before the rest, provided the first of the rest starts at or above its end.
  \<open>None\<close> is the overlap error.
\<close>

definition insert_region :: "mem_region list \<Rightarrow> mem_region \<Rightarrow> mem_region list option" where
  "insert_region rs new =
     (let pre = takeWhile (\<lambda>p. r_end p \<le> r_gpa new) rs;
          rest = dropWhile (\<lambda>p. r_end p \<le> r_gpa new) rs
      in case rest of
           [] \<Rightarrow> Some (pre @ [new])
         | p # _ \<Rightarrow> if r_gpa p \<ge> r_end new then Some (pre @ new # rest) else None)"

text \<open>The loop of \<open>gpa_to_hva\<close>: stop at the first region above the address.\<close>

fun gpa_to_hva_in :: "mem_region list \<Rightarrow> u64 \<Rightarrow> u64" where
  "gpa_to_hva_in [] g = 0"
| "gpa_to_hva_in (p # ps) g =
     (if r_gpa p \<le> g
      then (if g < r_end p then r_hva p + (g - r_gpa p) else gpa_to_hva_in ps g)
      else 0)"

text \<open>
  The lines \<open>vm_mem_dump\<close> writes to the log: first address, last address, number of
  pages, and whether the range is free or used.
\<close>

fun vm_mem_dump_from :: "mem_region list \<Rightarrow> u64 \<Rightarrow> (u64 \<times> u64 \<times> u64 \<times> bool) list" where
  "vm_mem_dump_from [] start = []"
| "vm_mem_dump_from (p # ps) start =
     (if start < r_gpa p
      then [(start, r_gpa p - 1, (r_gpa p - start) div CONF_PAGE_SIZE, False)] else [])
     @ [(r_gpa p, r_end p - 1, (r_end p - r_gpa p) div CONF_PAGE_SIZE, True)]
     @ vm_mem_dump_from ps (r_end p)"

definition vm_mem_dump :: "mem_region list \<Rightarrow> (u64 \<times> u64 \<times> u64 \<times> bool) list" where
  "vm_mem_dump rs = vm_mem_dump_from rs 0"

section \<open>Well-formed lists\<close>

definition r_lo :: "mem_region \<Rightarrow> nat" where "r_lo p = unat (r_gpa p)"

definition r_size :: "mem_region \<Rightarrow> nat" where "r_size p = unat (r_npages p) * 4096"

definition r_hi :: "mem_region \<Rightarrow> nat" where "r_hi p = r_lo p + r_size p"

definition h_lo :: "mem_region \<Rightarrow> nat" where "h_lo p = unat (r_hva p)"

definition page_aligned :: "u64 \<Rightarrow> bool" where "page_aligned a \<longleftrightarrow> 4096 dvd unat a"

text \<open>
  A region has at least one page, starts on a page boundary, and neither its guest range
  nor its host buffer reaches the end of the 64-bit space; its buffer is not \<open>NULL\<close>.
\<close>

definition region_ok :: "mem_region \<Rightarrow> bool" where
  "region_ok p \<longleftrightarrow> page_aligned (r_gpa p) \<and> 0 < r_npages p \<and> r_hi p < 2 ^ 64
     \<and> 0 < h_lo p \<and> h_lo p + r_size p < 2 ^ 64"

text \<open>The list is in address order and no two guest ranges or host buffers meet.\<close>

definition host_apart :: "mem_region \<Rightarrow> mem_region \<Rightarrow> bool" where
  "host_apart p q \<longleftrightarrow> h_lo p + r_size p \<le> h_lo q \<or> h_lo q + r_size q \<le> h_lo p"

definition regions_wf :: "mem_region list \<Rightarrow> bool" where
  "regions_wf rs \<longleftrightarrow> (\<forall>p \<in> set rs. region_ok p)
     \<and> sorted_wrt (\<lambda>p q. r_hi p \<le> r_lo q \<and> host_apart p q) rs"

text \<open>What the list means: address \<open>g\<close> lies in region \<open>p\<close>.\<close>

definition in_region :: "mem_region \<Rightarrow> u64 \<Rightarrow> bool" where
  "in_region p g \<longleftrightarrow> r_lo p \<le> unat g \<and> unat g < r_hi p"

text \<open>The end of the highest region: every guest address at or above it is free.\<close>

definition phys_top :: "mem_region list \<Rightarrow> nat" where
  "phys_top rs = (if rs = [] then 0 else r_hi (last rs))"

lemma regions_wf_Nil [simp]: "regions_wf []"
  by (simp add: regions_wf_def)

lemma regions_wf_Cons:
  "regions_wf (p # ps) \<longleftrightarrow> region_ok p \<and> regions_wf ps
     \<and> (\<forall>q \<in> set ps. r_hi p \<le> r_lo q \<and> host_apart p q)"
  by (auto simp: regions_wf_def)

lemma regions_wf_append:
  "regions_wf (xs @ ys) \<longleftrightarrow> regions_wf xs \<and> regions_wf ys
     \<and> (\<forall>p \<in> set xs. \<forall>q \<in> set ys. r_hi p \<le> r_lo q \<and> host_apart p q)"
  by (auto simp: regions_wf_def sorted_wrt_append)

lemma unat_r_end: "region_ok p \<Longrightarrow> unat (r_end p) = r_hi p"
  by (simp add: region_ok_def r_hi_def r_lo_def r_size_def r_end_def unat_mul_page unat_add_small)

lemma r_size_pos: "region_ok p \<Longrightarrow> 0 < r_size p"
  by (simp add: region_ok_def r_size_def word_less_nat_alt)

lemma r_lo_less_hi: "region_ok p \<Longrightarrow> r_lo p < r_hi p"
  using r_size_pos by (simp add: r_hi_def)

lemma in_region_iff: "region_ok p \<Longrightarrow> in_region p g \<longleftrightarrow> r_gpa p \<le> g \<and> g < r_end p"
  by (simp add: in_region_def word_le_nat_alt word_less_nat_alt unat_r_end r_lo_def)

lemma regions_wf_in_unique:
  assumes "regions_wf rs" "p \<in> set rs" "q \<in> set rs" "in_region p g" "in_region q g"
  shows "p = q"
  using assms by (induction rs) (fastforce simp: regions_wf_Cons in_region_def)+

lemma regions_wf_region_ok: "regions_wf rs \<Longrightarrow> p \<in> set rs \<Longrightarrow> region_ok p"
  by (simp add: regions_wf_def)

lemma host_apart_sym: "host_apart p q \<longleftrightarrow> host_apart q p"
  by (auto simp: host_apart_def)

lemma regions_wf_host_apart:
  "regions_wf rs \<Longrightarrow> p \<in> set rs \<Longrightarrow> q \<in> set rs \<Longrightarrow> p \<noteq> q \<Longrightarrow> host_apart p q"
  by (induction rs) (auto simp: regions_wf_Cons host_apart_sym)

section \<open>The lookup\<close>

lemma gpa_to_hva_in_region:
  "regions_wf rs \<Longrightarrow> p \<in> set rs \<Longrightarrow> in_region p g \<Longrightarrow>
     gpa_to_hva_in rs g = r_hva p + (g - r_gpa p)"
proof (induction rs)
  case Nil
  then show ?case by simp
next
  case (Cons q qs)
  then have q: "region_ok q" and wf: "regions_wf qs"
    by (simp_all add: regions_wf_Cons)
  show ?case
  proof (cases "p = q")
    case True
    with Cons.prems q show ?thesis by (simp add: in_region_iff)
  next
    case False
    with Cons.prems have p: "p \<in> set qs" and "r_hi q \<le> r_lo p"
      by (auto simp: regions_wf_Cons)
    with Cons.prems(3) r_lo_less_hi [OF q] have "r_gpa q \<le> g" "\<not> g < r_end q"
      by (auto simp: in_region_def word_le_nat_alt word_less_nat_alt unat_r_end [OF q] r_lo_def)
    with Cons.IH [OF wf p Cons.prems(3)] show ?thesis by simp
  qed
qed

lemma gpa_to_hva_in_none:
  "regions_wf rs \<Longrightarrow> \<forall>p \<in> set rs. \<not> in_region p g \<Longrightarrow> gpa_to_hva_in rs g = 0"
  by (induction rs) (auto simp: regions_wf_Cons in_region_iff)

lemma hva_offset:
  assumes "region_ok p" "in_region p g"
  shows "unat (r_hva p + (g - r_gpa p)) = h_lo p + (unat g - r_lo p)"
proof -
  have "unat (g - r_gpa p) = unat g - r_lo p"
    using assms by (simp add: in_region_iff unat_diff_le r_lo_def)
  with assms show ?thesis
    by (subst unat_add_small) (auto simp: in_region_def region_ok_def r_hi_def h_lo_def)
qed

lemma hva_nonzero: "region_ok p \<Longrightarrow> in_region p g \<Longrightarrow> r_hva p + (g - r_gpa p) \<noteq> 0"
  using hva_offset [of p g] by (auto simp: region_ok_def)

lemma gpa_to_hva_in_nonzero_iff:
  assumes "regions_wf rs"
  shows "gpa_to_hva_in rs g \<noteq> 0 \<longleftrightarrow> (\<exists>p \<in> set rs. in_region p g)"
proof (cases "\<exists>p \<in> set rs. in_region p g")
  case True
  then obtain p where p: "p \<in> set rs" "in_region p g" by blast
  with assms have "region_ok p" by (simp add: regions_wf_region_ok)
  with p assms True show ?thesis by (simp add: gpa_to_hva_in_region hva_nonzero)
next
  case False
  with assms show ?thesis by (simp add: gpa_to_hva_in_none)
qed

text \<open>Two guest addresses never share a host byte.\<close>

lemma gpa_to_hva_in_inject:
  assumes wf: "regions_wf rs" and eq: "gpa_to_hva_in rs g = gpa_to_hva_in rs g'"
    and nz: "gpa_to_hva_in rs g \<noteq> 0"
  shows "g = g'"
proof -
  obtain p where p: "p \<in> set rs" "in_region p g"
    using nz gpa_to_hva_in_nonzero_iff [OF wf] by blast
  obtain q where q: "q \<in> set rs" "in_region q g'"
    using nz eq gpa_to_hva_in_nonzero_iff [OF wf, of g'] by auto
  have ok: "region_ok p" "region_ok q"
    using wf p q by (simp_all add: regions_wf_region_ok)
  have "r_hva p + (g - r_gpa p) = r_hva q + (g' - r_gpa q)"
    using eq wf p q by (simp add: gpa_to_hva_in_region)
  then have off: "h_lo p + (unat g - r_lo p) = h_lo q + (unat g' - r_lo q)"
    using ok p q hva_offset by metis
  have "p = q"
  proof (rule ccontr)
    assume "p \<noteq> q"
    then have "host_apart p q"
      using wf p q by (simp add: regions_wf_host_apart)
    with off p q show False
      by (auto simp: host_apart_def in_region_def r_hi_def)
  qed
  with off p q have "unat g = unat g'"
    by (auto simp: in_region_def)
  then show ?thesis by (rule word_eq_by_unat)
qed

section \<open>The first-fit search\<close>

text \<open>The range of \<open>n\<close> bytes at \<open>a\<close> meets no region.\<close>

definition free_range :: "mem_region list \<Rightarrow> nat \<Rightarrow> nat \<Rightarrow> bool" where
  "free_range rs a n \<longleftrightarrow> (\<forall>p \<in> set rs. a + n \<le> r_lo p \<or> r_hi p \<le> a)"

lemma find_free_loop_spec:
  assumes "regions_wf rs" "\<forall>p \<in> set rs. unat start \<le> r_lo p"
    and "unat n * 4096 < 2 ^ 64" "0 < unat n"
    and "s = find_free_loop rs start n"
  shows "free_range rs (unat s) (unat n * 4096)
    \<and> (s = start \<or> (\<exists>p \<in> set rs. unat s = r_hi p))
    \<and> (\<forall>a \<ge> unat start. free_range rs a (unat n * 4096) \<longrightarrow> unat s \<le> a)"
  using assms
proof (induction rs arbitrary: start)
  case Nil
  then show ?case by (simp add: free_range_def)
next
  case (Cons p ps)
  then have p: "region_ok p" and wf: "regions_wf ps"
    and after: "\<forall>q \<in> set ps. r_hi p \<le> r_lo q" and le: "unat start \<le> r_lo p"
    by (auto simp: regions_wf_Cons)
  note lohi = r_lo_less_hi [OF p]
  have "start \<le> r_gpa p"
    using le by (simp add: word_le_nat_alt r_lo_def)
  then have gap: "unat (r_gpa p - start) = r_lo p - unat start"
    by (simp add: unat_diff_le r_lo_def)
  show ?case
  proof (cases "r_gpa p - start \<ge> n * CONF_PAGE_SIZE")
    case True
    then have "unat start + unat n * 4096 \<le> r_lo p"
      using gap le Cons.prems(3) by (simp add: word_le_nat_alt unat_mul_page)
    with True Cons.prems(5) after lohi show ?thesis
      by (auto simp: free_range_def)
  next
    case False
    then have nofit: "r_lo p < unat start + unat n * 4096"
      using gap le Cons.prems(3) by (simp add: word_le_nat_alt unat_mul_page)
    have "\<forall>q \<in> set ps. unat (r_end p) \<le> r_lo q"
      using after by (simp add: unat_r_end [OF p])
    from Cons.IH [OF wf this Cons.prems(3,4)] False Cons.prems(5)
    have IH: "free_range ps (unat s) (unat n * 4096)"
      "s = r_end p \<or> (\<exists>q \<in> set ps. unat s = r_hi q)"
      "\<forall>a \<ge> r_hi p. free_range ps a (unat n * 4096) \<longrightarrow> unat s \<le> a"
      by (simp_all add: unat_r_end [OF p])
    have ge: "r_hi p \<le> unat s"
      using IH(2) after unat_r_end [OF p] wf
      by (auto dest: bspec simp: regions_wf_region_ok r_lo_less_hi le_trans less_imp_le)
    have "unat s \<le> a" if "unat start \<le> a" "free_range (p # ps) a (unat n * 4096)" for a
      using that nofit IH(3) by (auto simp: free_range_def)
    with IH ge show ?thesis
      by (auto simp: free_range_def unat_r_end [OF p])
  qed
qed

lemma r_hi_dvd: "region_ok p \<Longrightarrow> 4096 dvd r_hi p"
  by (simp add: region_ok_def page_aligned_def r_hi_def r_lo_def r_size_def)

lemma r_hi_le_phys_top:
  assumes "regions_wf rs" "p \<in> set rs"
  shows "r_hi p \<le> phys_top rs"
proof -
  from assms(2) have ne: "rs \<noteq> []" by auto
  then obtain ps q where rs: "rs = ps @ [q]"
    by (metis append_butlast_last_id)
  with assms have q: "region_ok q" and "p = q \<or> r_hi p \<le> r_lo q"
    by (auto simp: regions_wf_append regions_wf_Cons)
  with r_lo_less_hi [OF q] rs show ?thesis
    by (auto simp: phys_top_def)
qed

lemma find_free_loop_top:
  assumes "regions_wf rs" "unat n * 4096 < 2 ^ 64" "0 < unat n"
  shows "unat (find_free_loop rs 0 n) \<le> phys_top rs"
    and "page_aligned (find_free_loop rs 0 n)"
    and "free_range rs (unat (find_free_loop rs 0 n)) (unat n * 4096)"
  using find_free_loop_spec [OF assms(1) _ assms(2,3) refl, of 0] assms(1)
  by (auto simp: page_aligned_def r_hi_le_phys_top r_hi_dvd regions_wf_region_ok)

section \<open>The insertion\<close>

definition overlaps :: "mem_region \<Rightarrow> mem_region \<Rightarrow> bool" where
  "overlaps p q \<longleftrightarrow> r_lo p < r_hi q \<and> r_lo q < r_hi p"

lemma insert_region_split:
  assumes wf: "regions_wf rs" and new: "region_ok new"
  obtains pre rest where "rs = pre @ rest"
    and "\<forall>p \<in> set pre. r_hi p \<le> r_lo new" and "\<forall>p \<in> set rest. r_lo new < r_hi p"
    and "insert_region rs new =
      (if rest = [] \<or> r_hi new \<le> r_lo (hd rest) then Some (pre @ new # rest) else None)"
proof -
  let ?P = "\<lambda>p. r_end p \<le> r_gpa new"
  have P: "?P p \<longleftrightarrow> r_hi p \<le> r_lo new" if "p \<in> set rs" for p
    using that wf by (simp add: regions_wf_region_ok word_le_nat_alt unat_r_end r_lo_def)
  have split: "rs = takeWhile ?P rs @ dropWhile ?P rs"
    by simp
  have pre: "\<forall>p \<in> set (takeWhile ?P rs). r_hi p \<le> r_lo new"
    using P by (auto dest: set_takeWhileD)
  have rest: "\<forall>p \<in> set (dropWhile ?P rs). r_lo new < r_hi p"
  proof (cases "dropWhile ?P rs")
    case Nil
    show ?thesis unfolding Nil by simp
  next
    case (Cons q qs)
    have wf': "regions_wf (dropWhile ?P rs)"
      using wf split regions_wf_append by metis
    have "q \<in> set (dropWhile ?P rs)"
      unfolding Cons by simp
    then have q: "q \<in> set rs"
      by (rule set_dropWhileD)
    moreover have "\<not> ?P q"
      using Cons hd_dropWhile [of ?P rs] by simp
    ultimately have "r_lo new < r_hi q"
      using P by auto
    moreover have "r_hi q \<le> r_lo p" "r_lo p < r_hi p" if "p \<in> set qs" for p
      using wf' that unfolding Cons by (auto simp: regions_wf_Cons regions_wf_region_ok r_lo_less_hi)
    ultimately have "\<forall>p \<in> set (q # qs). r_lo new < r_hi p"
      by fastforce
    then show ?thesis by (simp only: Cons)
  qed
  have "insert_region rs new =
    (if dropWhile ?P rs = [] \<or> r_hi new \<le> r_lo (hd (dropWhile ?P rs))
     then Some (takeWhile ?P rs @ new # dropWhile ?P rs) else None)"
  proof (cases "dropWhile ?P rs")
    case Nil
    show ?thesis unfolding insert_region_def Let_def Nil by simp
  next
    case (Cons q qs)
    have "r_end new \<le> r_gpa q \<longleftrightarrow> r_hi new \<le> r_lo q"
      using new by (simp add: word_le_nat_alt unat_r_end r_lo_def)
    then show ?thesis unfolding insert_region_def Let_def Cons by simp
  qed
  with split pre rest that show ?thesis by blast
qed

lemma insert_region_Some:
  assumes wf: "regions_wf rs" and new: "region_ok new"
    and apart: "\<forall>p \<in> set rs. host_apart p new"
    and ins: "insert_region rs new = Some rs'"
  shows "regions_wf rs'" and "set rs' = insert new (set rs)"
proof -
  obtain pre rest where rs: "rs = pre @ rest" and pre: "\<forall>p \<in> set pre. r_hi p \<le> r_lo new"
    and eq: "insert_region rs new =
      (if rest = [] \<or> r_hi new \<le> r_lo (hd rest) then Some (pre @ new # rest) else None)"
    using wf new by (rule insert_region_split) blast
  from ins eq have rs': "rs' = pre @ new # rest" and hd: "rest = [] \<or> r_hi new \<le> r_lo (hd rest)"
    by (auto split: if_splits)
  have rest: "\<forall>q \<in> set rest. r_hi new \<le> r_lo q"
  proof (cases rest)
    case Nil
    then show ?thesis by simp
  next
    case (Cons q qs)
    with rs wf have "region_ok q" "\<forall>p \<in> set qs. r_hi q \<le> r_lo p"
      by (auto simp: regions_wf_append regions_wf_Cons)
    with Cons hd r_lo_less_hi [of q] show ?thesis by fastforce
  qed
  show "regions_wf rs'"
    using wf new apart pre rest rs rs'
    by (auto simp: regions_wf_append regions_wf_Cons host_apart_sym)
  show "set rs' = insert new (set rs)"
    using rs rs' by auto
qed

lemma insert_region_None_iff:
  assumes wf: "regions_wf rs" and new: "region_ok new"
  shows "insert_region rs new = None \<longleftrightarrow> (\<exists>p \<in> set rs. overlaps p new)"
proof -
  obtain pre rest where rs: "rs = pre @ rest" and pre: "\<forall>p \<in> set pre. r_hi p \<le> r_lo new"
    and rest: "\<forall>p \<in> set rest. r_lo new < r_hi p"
    and eq: "insert_region rs new =
      (if rest = [] \<or> r_hi new \<le> r_lo (hd rest) then Some (pre @ new # rest) else None)"
    using wf new by (rule insert_region_split)
  show ?thesis
  proof (cases rest)
    case Nil
    with eq rs pre show ?thesis by (auto simp: overlaps_def)
  next
    case (Cons q qs)
    with rs wf have q: "region_ok q" and qs: "\<forall>p \<in> set qs. r_hi q \<le> r_lo p"
      by (auto simp: regions_wf_append regions_wf_Cons)
    have "overlaps q new \<longleftrightarrow> \<not> r_hi new \<le> r_lo q"
      using rest Cons by (auto simp: overlaps_def)
    moreover have "overlaps p new \<Longrightarrow> overlaps q new" if "p \<in> set rs" for p
      using that rs Cons pre rest qs r_lo_less_hi [OF q] by (fastforce simp: overlaps_def)
    ultimately show ?thesis
      using eq Cons rs by auto
  qed
qed

lemma free_range_insert:
  assumes wf: "regions_wf rs" and new: "region_ok new"
    and free: "free_range rs (r_lo new) (r_size new)"
  shows "insert_region rs new \<noteq> None"
  using assms by (auto simp: insert_region_None_iff overlaps_def free_range_def r_hi_def)

section \<open>The dump\<close>

lemma phys_top_Cons:
  "phys_top (p # ps) = (if ps = [] then r_hi p else phys_top ps)"
  by (simp add: phys_top_def)

lemma vm_mem_dump_from_used:
  "regions_wf rs \<Longrightarrow>
     (\<exists>(a, b, k, used) \<in> set (vm_mem_dump_from rs s). used \<and> a \<le> g \<and> g \<le> b)
       \<longleftrightarrow> (\<exists>p \<in> set rs. in_region p g)"
proof (induction rs arbitrary: s)
  case Nil
  then show ?case by simp
next
  case (Cons p ps)
  then have ok: "region_ok p" and wf: "regions_wf ps"
    by (simp_all add: regions_wf_Cons)
  have "0 < unat (r_end p)"
    using r_lo_less_hi [OF ok] by (simp add: unat_r_end [OF ok])
  then have "g \<le> r_end p - 1 \<longleftrightarrow> g < r_end p"
    by (simp add: word_le_nat_alt word_less_nat_alt unat_diff_le Suc_le_eq) linarith
  then have "in_region p g \<longleftrightarrow> r_gpa p \<le> g \<and> g \<le> r_end p - 1"
    using ok by (simp add: in_region_iff)
  with Cons.IH [OF wf, of "r_end p"] show ?case by auto
qed

lemma vm_mem_dump_from_free:
  "regions_wf rs \<Longrightarrow> \<forall>p \<in> set rs. unat s \<le> r_lo p \<Longrightarrow>
     (\<exists>(a, b, k, used) \<in> set (vm_mem_dump_from rs s). \<not> used \<and> a \<le> g \<and> g \<le> b)
       \<longleftrightarrow> s \<le> g \<and> unat g < phys_top rs \<and> (\<forall>p \<in> set rs. \<not> in_region p g)"
proof (induction rs arbitrary: s)
  case Nil
  then show ?case by (simp add: phys_top_def)
next
  case (Cons p ps)
  then have ok: "region_ok p" and wf: "regions_wf ps" and start: "unat s \<le> r_lo p"
    and rest: "\<forall>q \<in> set ps. unat (r_end p) \<le> r_lo q"
    by (simp_all add: regions_wf_Cons unat_r_end)
  have gap: "s < r_gpa p \<and> s \<le> g \<and> g \<le> r_gpa p - 1 \<longleftrightarrow> s \<le> g \<and> unat g < r_lo p"
  proof (cases "s < r_gpa p")
    case True
    then have "0 < unat (r_gpa p)"
      by (simp add: word_less_nat_alt)
    then have "g \<le> r_gpa p - 1 \<longleftrightarrow> unat g < r_lo p"
      by (simp add: word_le_nat_alt unat_diff_le Suc_le_eq r_lo_def) linarith
    with True show ?thesis by simp
  next
    case False
    then show ?thesis
      using start by (auto simp: word_le_nat_alt word_less_nat_alt r_lo_def)
  qed
  have "(\<exists>(a, b, k, used) \<in> set (vm_mem_dump_from (p # ps) s). \<not> used \<and> a \<le> g \<and> g \<le> b)
      \<longleftrightarrow> s < r_gpa p \<and> s \<le> g \<and> g \<le> r_gpa p - 1
        \<or> (\<exists>(a, b, k, used) \<in> set (vm_mem_dump_from ps (r_end p)). \<not> used \<and> a \<le> g \<and> g \<le> b)"
    by auto
  also have "\<dots> \<longleftrightarrow> s \<le> g \<and> unat g < r_lo p
      \<or> r_end p \<le> g \<and> unat g < phys_top ps \<and> (\<forall>q \<in> set ps. \<not> in_region q g)"
    unfolding gap Cons.IH [OF wf rest] ..
  also have "\<dots> \<longleftrightarrow> s \<le> g \<and> unat g < phys_top (p # ps) \<and> (\<forall>q \<in> set (p # ps). \<not> in_region q g)"
  proof -
    have "r_lo p < r_hi p"
      using ok by (rule r_lo_less_hi)
    moreover have "phys_top ps = 0 \<and> ps = [] \<or> r_hi p \<le> phys_top ps \<and> ps \<noteq> []"
      using rest r_hi_le_phys_top [OF wf] r_lo_less_hi regions_wf_region_ok [OF wf]
      by (cases ps) (fastforce simp: phys_top_def unat_r_end [OF ok])+
    moreover have "\<not> in_region q g" if "q \<in> set ps" "unat g < r_hi p" for q
      using rest that by (auto simp: in_region_def unat_r_end [OF ok])
    ultimately show ?thesis
      using start by (auto simp: phys_top_Cons in_region_def word_le_nat_alt unat_r_end [OF ok])
  qed
  finally show ?case .
qed

end
