(* ===== verification/Machine.thy ===== *)
theory Machine
  imports Regions
begin

text \<open>
  The state the C program works on, and what it takes from outside \<open>src/\<close>.
  Hypervisor.framework is a parameter: a record of functions on an opaque type \<open>'w\<close> of
  worlds. The choices of the C library's allocators are a parameter too: which address
  \<open>valloc\<close> picks, what its block holds, whether \<open>malloc\<close> fails.
\<close>

section \<open>Hypervisor.framework\<close>

text \<open>The registers and the fields of the VM control structure that the source names.\<close>

datatype hv_x86_reg =
  HV_X86_RIP | HV_X86_RFLAGS | HV_X86_RAX | HV_X86_RCX | HV_X86_RDX | HV_X86_RBX
  | HV_X86_RSI | HV_X86_RDI | HV_X86_RSP | HV_X86_RBP | HV_X86_R8 | HV_X86_R9
  | HV_X86_R10 | HV_X86_R11 | HV_X86_R12 | HV_X86_R13 | HV_X86_R14 | HV_X86_R15
  | HV_X86_CR0

datatype vmcs_field =
  VMCS_CTRL_PIN_BASED | VMCS_CTRL_CPU_BASED | VMCS_CTRL_CPU_BASED2
  | VMCS_CTRL_VMENTRY_CONTROLS | VMCS_CTRL_VMEXIT_CONTROLS | VMCS_CTRL_EXC_BITMAP
  | VMCS_CTRL_CR0_MASK | VMCS_CTRL_CR0_SHADOW | VMCS_GUEST_CR0 | VMCS_GUEST_CR3
  | VMCS_CTRL_CR4_MASK | VMCS_CTRL_CR4_SHADOW | VMCS_GUEST_CR4
  | VMCS_GUEST_CS | VMCS_GUEST_CS_BASE | VMCS_GUEST_CS_LIMIT | VMCS_GUEST_CS_AR
  | VMCS_GUEST_DS | VMCS_GUEST_DS_BASE | VMCS_GUEST_DS_LIMIT | VMCS_GUEST_DS_AR
  | VMCS_GUEST_ES | VMCS_GUEST_ES_BASE | VMCS_GUEST_ES_LIMIT | VMCS_GUEST_ES_AR
  | VMCS_GUEST_FS | VMCS_GUEST_FS_BASE | VMCS_GUEST_FS_LIMIT | VMCS_GUEST_FS_AR
  | VMCS_GUEST_GS | VMCS_GUEST_GS_BASE | VMCS_GUEST_GS_LIMIT | VMCS_GUEST_GS_AR
  | VMCS_GUEST_SS | VMCS_GUEST_SS_BASE | VMCS_GUEST_SS_LIMIT | VMCS_GUEST_SS_AR
  | VMCS_GUEST_TR | VMCS_GUEST_TR_BASE | VMCS_GUEST_TR_LIMIT | VMCS_GUEST_TR_AR
  | VMCS_GUEST_LDTR | VMCS_GUEST_LDTR_BASE | VMCS_GUEST_LDTR_LIMIT | VMCS_GUEST_LDTR_AR
  | VMCS_GUEST_GDTR_BASE | VMCS_GUEST_GDTR_LIMIT
  | VMCS_GUEST_IDTR_BASE | VMCS_GUEST_IDTR_LIMIT | VMCS_GUEST_IA32_EFER
  | VMCS_RO_EXIT_REASON | VMCS_RO_EXIT_QUALIFIC | VMCS_RO_VMEXIT_INSTR_LEN
  | VMCS_RO_IDT_VECTOR_INFO

datatype vmx_reason =
  VMX_REASON_EXC_NMI | VMX_REASON_IRQ | VMX_REASON_VMCALL | VMX_REASON_HLT
  | VMX_REASON_EPT_VIOLATION | VMX_REASON_RDMSR | VMX_REASON_WRMSR | VMX_REASON_MOV_CR
  | VMX_REASON_CPUID

text \<open>
  The numbers behind the exit reasons and the memory flags are in Apple's headers, so they
  are part of the parameter. Each function returns its \<open>hv_return_t\<close>, 0 for success. A read takes the old value of
  the variable it writes through and returns the new one. The program has one virtual CPU,
  so its id is left out. \<open>hv_vcpu_run\<close> runs guest code, which may change guest memory,
  that is the host memory behind it.
\<close>

record 'w hv_ops =
  vmx_reason_code :: "vmx_reason \<Rightarrow> u64"
  HV_MEMORY_READ :: u64
  HV_MEMORY_WRITE :: u64
  HV_MEMORY_EXEC :: u64
  hv_vm_create :: "'w \<Rightarrow> u32 \<times> 'w"
  hv_vm_destroy :: "'w \<Rightarrow> u32 \<times> 'w"
  hv_vcpu_create :: "'w \<Rightarrow> u32 \<times> 'w"
  hv_vcpu_destroy :: "'w \<Rightarrow> u32 \<times> 'w"
  hv_vm_map :: "'w \<Rightarrow> u64 \<Rightarrow> u64 \<Rightarrow> u64 \<Rightarrow> u64 \<Rightarrow> u32 \<times> 'w"
  hv_vm_unmap :: "'w \<Rightarrow> u64 \<Rightarrow> u64 \<Rightarrow> u32 \<times> 'w"
  hv_vcpu_read_register :: "'w \<Rightarrow> hv_x86_reg \<Rightarrow> u64 \<Rightarrow> u32 \<times> u64"
  hv_vcpu_write_register :: "'w \<Rightarrow> hv_x86_reg \<Rightarrow> u64 \<Rightarrow> u32 \<times> 'w"
  hv_vmx_vcpu_read_vmcs :: "'w \<Rightarrow> vmcs_field \<Rightarrow> u64 \<Rightarrow> u32 \<times> u64"
  hv_vmx_vcpu_write_vmcs :: "'w \<Rightarrow> vmcs_field \<Rightarrow> u64 \<Rightarrow> u32 \<times> 'w"
  hv_vcpu_enable_native_msr :: "'w \<Rightarrow> u32 \<Rightarrow> bool \<Rightarrow> u32 \<times> 'w"
  hv_vcpu_run :: "'w \<Rightarrow> (u64 \<rightharpoonup> u8) \<Rightarrow> u32 \<times> 'w \<times> (u64 \<rightharpoonup> u8)"

section \<open>The allocators of the C library\<close>

text \<open>
  The \<open>n\<close>-th allocator call of the run makes its own choices: the address of a block of
  a given size in a given heap (0 is \<open>NULL\<close>), the byte found at an address of a fresh
  block, and whether a \<open>malloc\<close> of a list node returns \<open>NULL\<close>.
\<close>

record host_ops =
  valloc_at :: "nat \<Rightarrow> (u64 \<rightharpoonup> u8) \<Rightarrow> u64 \<Rightarrow> u64"
  valloc_fill :: "nat \<Rightarrow> u64 \<Rightarrow> u8"
  malloc_null :: "nat \<Rightarrow> bool"

text \<open>
  What the C library documents of \<open>valloc\<close>: a block that it returns is aligned on a
  page boundary, lies inside the address space and overlaps nothing allocated.
\<close>

definition valloc_ok :: "host_ops \<Rightarrow> bool" where
  "valloc_ok A \<longleftrightarrow> (\<forall>n h size. valloc_at A n h size \<noteq> 0 \<longrightarrow>
     page_aligned (valloc_at A n h size) \<and> unat (valloc_at A n h size) + unat size < 2 ^ 64
     \<and> (\<forall>i < unat size. h (valloc_at A n h size + of_nat i) = None))"

text \<open>
  What \<open>map_gva\<close> relies on beyond that: fresh blocks hold zeros. No standard promises it.
\<close>

definition valloc_zeroed :: "host_ops \<Rightarrow> bool" where
  "valloc_zeroed A \<longleftrightarrow> (\<forall>n a. valloc_fill A n a = 0)"

section \<open>The state\<close>

text \<open>
  \<open>mem_regions\<close>, \<open>pml4\<close> and \<open>pml4_gpa\<close> are the globals of \<open>vm_mem.c\<close>.
  \<open>heap\<close> is the memory of the process that guest regions can be backed by: \<open>None\<close>
  outside the blocks that are allocated, so that an access there, which C leaves
  undefined, is visible. \<open>calls\<close> numbers the allocator calls and \<open>failures\<close> counts the
  calls to \<open>valloc\<close>, \<open>malloc\<close> and \<open>hv_vm_map\<close> that failed so far.
\<close>

record 'w machine =
  mem_regions :: "mem_region list"
  pml4 :: u64
  pml4_gpa :: u64
  heap :: "u64 \<rightharpoonup> u8"
  world :: 'w
  calls :: nat
  failures :: nat

definition in_block :: "u64 \<Rightarrow> nat \<Rightarrow> u64 \<Rightarrow> bool" where
  "in_block p n a \<longleftrightarrow> unat (a - p) < n"

definition valloc ::
  "host_ops \<Rightarrow> ('w, 'z) machine_scheme \<Rightarrow> u64 \<Rightarrow> u64 \<times> ('w, 'z) machine_scheme" where
  "valloc A m sz =
     (let n = calls m; p = valloc_at A n (heap m) sz
      in if p = 0 then (0, m\<lparr>calls := Suc n, failures := Suc (failures m)\<rparr>)
         else (p, m\<lparr>calls := Suc n, heap := (\<lambda>a. if in_block p (unat sz) a
             then Some (valloc_fill A n a) else heap m a)\<rparr>))"

text \<open>\<open>free\<close> of a block whose sz the caller knows; \<open>free(NULL)\<close> does nothing.\<close>

definition free_block ::
  "u64 \<Rightarrow> u64 \<Rightarrow> ('w, 'z) machine_scheme \<Rightarrow> ('w, 'z) machine_scheme" where
  "free_block p sz m =
     (if p = 0 then m
      else m\<lparr>heap := (\<lambda>a. if in_block p (unat sz) a then None else heap m a)\<rparr>)"

text \<open>
  A local variable that C leaves uninitialised holds some value; the definitions take it
  as an argument, one value for each such variable.
\<close>

datatype local_var = L_entry | L_pml4e | L_pdpte | L_pde | L_pdpt_gpa | L_pd_gpa | L_pt_gpa

lemma in_block_iff:
  assumes "unat p + n < 2 ^ 64"
  shows "in_block p n a \<longleftrightarrow> unat p \<le> unat a \<and> unat a < unat p + n"
proof (cases "p \<le> a")
  case True
  then show ?thesis
    by (auto simp: in_block_def unat_diff_le word_le_nat_alt)
next
  case False
  have "\<not> unat (a - p) < n"
  proof
    assume "unat (a - p) < n"
    then have "unat ((a - p) + p) = unat (a - p) + unat p"
      using assms by (intro unat_add_small) simp
    with False show False
      by (simp add: word_le_nat_alt)
  qed
  with False show ?thesis
    by (simp add: in_block_def word_le_nat_alt)
qed

lemma in_block_offset: "in_block p n a \<longleftrightarrow> (\<exists>i < n. a = p + of_nat i)" if "n \<le> 2 ^ 64"
proof
  assume "in_block p n a"
  then show "\<exists>i < n. a = p + of_nat i"
    by (intro exI [of _ "unat (a - p)"]) (simp add: in_block_def)
next
  assume "\<exists>i < n. a = p + of_nat i"
  then obtain i where "i < n" "a = p + of_nat i" by blast
  with that show "in_block p n a"
    by (simp add: in_block_def unsigned_of_nat take_bit_nat_eq_self)
qed

lemma in_blockI: "i < n \<Longrightarrow> n \<le> 2 ^ 64 \<Longrightarrow> in_block p n (p + of_nat i)"
  by (subst in_block_offset) auto

end
