(* ===== verification/ByteMemory.thy ===== *)
theory ByteMemory
  imports Machine
begin

text \<open>
  The contract of a byte-addressed memory, apart from the program: the meaning of reading
  and writing a run of bytes on a partial function from addresses to bytes (\<open>peek\<close>,
  \<open>poke\<close>, and \<open>span\<close>, how far a run is mapped), and two interfaces as locales.
  \<open>byte_memory\<close> says that a component's read and write implement them;
  \<open>typed_memory\<close> adds an integer codec. Everything that works on guest memory (page
  tables, stack, program arguments) uses the lemmas proved here once.
\<close>

section \<open>Runs of bytes\<close>

fun span :: "(u64 \<rightharpoonup> u8) \<Rightarrow> u64 \<Rightarrow> nat \<Rightarrow> nat" where
  "span f a 0 = 0"
| "span f a (Suc n) = (case f a of None \<Rightarrow> 0 | Some _ \<Rightarrow> Suc (span f (a + 1) n))"

definition peek :: "(u64 \<rightharpoonup> u8) \<Rightarrow> u64 \<Rightarrow> nat \<Rightarrow> u8 list" where
  "peek f a n = map (\<lambda>i. the (f (a + of_nat i))) [0..<n]"

fun poke :: "(u64 \<rightharpoonup> u8) \<Rightarrow> u64 \<Rightarrow> u8 list \<Rightarrow> (u64 \<rightharpoonup> u8)" where
  "poke f a [] = f"
| "poke f a (b # bs) = poke (f(a \<mapsto> b)) (a + 1) bs"

definition avail :: "(u64 \<rightharpoonup> u8) \<Rightarrow> u64 \<Rightarrow> nat \<Rightarrow> bool" where
  "avail f a n \<longleftrightarrow> (\<forall>i < n. f (a + of_nat i) \<noteq> None)"

definition apart :: "u64 \<Rightarrow> nat \<Rightarrow> u64 \<Rightarrow> nat \<Rightarrow> bool" where
  "apart a n b k \<longleftrightarrow> (\<forall>i < k. \<not> in_block a n (b + of_nat i))"

lemma length_peek [simp]: "length (peek f a n) = n"
  by (simp add: peek_def)

lemma peek_0 [simp]: "peek f a 0 = []"
  by (simp add: peek_def)

lemma peek_Suc: "peek f a (Suc n) = the (f a) # peek f (a + 1) n"
proof -
  have "[0..<Suc n] = 0 # map Suc [0..<n]"
    by (simp add: upt_conv_Cons map_Suc_upt del: upt_Suc)
  then show ?thesis
    by (simp add: peek_def ac_simps del: upt_Suc)
qed

lemma span_le: "span f a n \<le> n"
  by (induction n arbitrary: a) (auto split: option.splits)

lemma avail_0 [simp]: "avail f a 0"
  by (simp add: avail_def)

lemma avail_Suc: "avail f a (Suc n) \<longleftrightarrow> f a \<noteq> None \<and> avail f (a + 1) n"
proof -
  have "avail f (a + 1) n \<longleftrightarrow> (\<forall>i < n. f (a + of_nat (Suc i)) \<noteq> None)"
    by (simp add: avail_def ac_simps)
  then show ?thesis
    by (auto simp: avail_def less_Suc_eq_0_disj simp del: of_nat_Suc)
qed

lemma avail_upd: "avail f a n \<Longrightarrow> avail (f(x \<mapsto> b)) a n"
  by (simp add: avail_def)

lemma span_eq_iff: "span f a n = n \<longleftrightarrow> avail f a n"
  by (induction n arbitrary: a) (auto simp: avail_Suc split: option.splits)

lemma span_cong: "dom f = dom f' \<Longrightarrow> span f a n = span f' a n"
proof (induction n arbitrary: a)
  case 0
  then show ?case by simp
next
  case (Suc n)
  then have "f a = None \<longleftrightarrow> f' a = None"
    by (metis domIff)
  with Suc show ?case by (auto split: option.splits)
qed

lemma avail_span: "avail f a (span f a n)"
  by (induction n arbitrary: a) (auto simp: avail_Suc split: option.splits)

lemma span_stop: "span f a n < n \<Longrightarrow> f (a + of_nat (span f a n)) = None"
proof (induction n arbitrary: a)
  case 0
  then show ?case by simp
next
  case (Suc n)
  then show ?case
    using Suc.IH [of "a + 1"] by (auto simp: ac_simps split: option.splits)
qed

lemma avail_mono: "avail f a n \<Longrightarrow> k \<le> n \<Longrightarrow> avail f a k"
  by (simp add: avail_def)

lemma avail_take: "avail f a (length bs) \<Longrightarrow> take (span f a (length bs)) bs = bs"
  by (simp add: span_eq_iff [symmetric])

lemma poke_apply:
  "length bs \<le> 2 ^ 64 \<Longrightarrow>
     poke f a bs x = (if in_block a (length bs) x then Some (bs ! unat (x - a)) else f x)"
proof (induction bs arbitrary: f a)
  case Nil
  then show ?case by (simp add: in_block_def)
next
  case (Cons b bs)
  show ?case
  proof (cases "x = a")
    case True
    have "\<not> in_block (a + 1) (length bs) a"
      using Cons.prems by (simp add: in_block_def unsigned_minus_1_eq_mask mask_eq_exp_minus_1)
    with Cons True show ?thesis by (simp add: in_block_def)
  next
    case False
    then have nz: "x - a \<noteq> 0" by simp
    then have "unat (x - a - 1) = unat (x - a) - 1"
      by (rule unat_minus_one)
    moreover have "x - a - 1 = x - (a + 1)"
      by (rule diff_diff_eq)
    moreover have "0 < unat (x - a)"
      using nz unat_gt_0 by blast
    ultimately have "unat (x - a) = Suc (unat (x - (a + 1)))"
      by (metis Suc_diff_1)
    with Cons.prems False show ?thesis
      by (simp add: in_block_def Cons.IH)
  qed
qed

lemma avail_poke: "avail f a n \<Longrightarrow> avail (poke f b bs) a n"
proof (induction bs arbitrary: f b)
  case Nil
  then show ?case by simp
next
  case (Cons c bs)
  then show ?case by (auto simp: avail_def)
qed

lemma dom_poke: "avail f a (length bs) \<Longrightarrow> dom (poke f a bs) = dom f"
proof (induction bs arbitrary: f a)
  case Nil
  then show ?case by simp
next
  case (Cons b bs)
  then have "a \<in> dom f" and "avail (f(a \<mapsto> b)) (a + 1) (length bs)"
    by (auto simp: avail_Suc avail_upd)
  then have "dom (poke (f(a \<mapsto> b)) (a + 1) bs) = dom (f(a \<mapsto> b))"
    by (intro Cons.IH)
  with \<open>a \<in> dom f\<close> show ?case
    by (simp only: poke.simps dom_fun_upd option.distinct if_False insert_absorb)
qed

lemma peek_poke_same:
  assumes "length bs \<le> 2 ^ 64" "n \<le> length bs"
  shows "peek (poke f a bs) a n = take n bs"
proof (rule nth_equalityI)
  show "length (peek (poke f a bs) a n) = length (take n bs)"
    using assms by simp
next
  fix i assume "i < length (peek (poke f a bs) a n)"
  then have "i < n" by simp
  with assms show "peek (poke f a bs) a n ! i = take n bs ! i"
    by (simp add: peek_def poke_apply in_block_def unsigned_of_nat take_bit_nat_eq_self)
qed

lemma peek_poke_apart:
  "length bs \<le> 2 ^ 64 \<Longrightarrow> apart a (length bs) b n \<Longrightarrow> peek (poke f a bs) b n = peek f b n"
  by (auto simp: peek_def poke_apply apart_def)

lemma apart_sym:
  assumes "n \<le> 2 ^ 64" "k \<le> 2 ^ 64" "apart a n b k"
  shows "apart b k a n"
  using assms by (metis apart_def in_block_offset)

lemma apart_by_unat:
  assumes "unat a + n < 2 ^ 64" "unat b + k < 2 ^ 64"
    and "unat a + n \<le> unat b \<or> unat b + k \<le> unat a"
  shows "apart a n b k"
proof -
  have "unat (b + of_nat i) = unat b + i" if "i < k" for i
    using assms(2) that by (intro unat_add_of_nat) simp
  with assms show ?thesis
    by (auto simp: apart_def in_block_iff)
qed

lemma peek_append: "peek f a (n + k) = peek f a n @ peek f (a + of_nat n) k"
  by (induction n arbitrary: a) (simp_all add: peek_Suc ac_simps)

section \<open>The interfaces\<close>

text \<open>
  \<open>byte s\<close> is what the state holds. A read or write stops at the first address that
  is not mapped and reports how far it came; \<open>None\<close> would be undefined behaviour.
\<close>

locale byte_memory =
  fixes inv :: "'s \<Rightarrow> bool"
    and byte :: "'s \<Rightarrow> u64 \<Rightarrow> u8 option"
    and load :: "'s \<Rightarrow> u64 \<Rightarrow> nat \<Rightarrow> u8 list option"
    and store :: "'s \<Rightarrow> u64 \<Rightarrow> u8 list \<Rightarrow> (nat \<times> 's) option"
  assumes read_law: "inv s \<Longrightarrow> n \<le> INT_MAX \<Longrightarrow>
      load s a n = Some (peek (byte s) a (span (byte s) a n))"
    and write_law: "inv s \<Longrightarrow> length bs \<le> INT_MAX \<Longrightarrow>
      \<exists>s'. store s a bs = Some (span (byte s) a (length bs), s') \<and> inv s'
        \<and> byte s' = poke (byte s) a (take (span (byte s) a (length bs)) bs)"
begin

lemma read_avail: "inv s \<Longrightarrow> n \<le> INT_MAX \<Longrightarrow> avail (byte s) a n \<Longrightarrow>
    load s a n = Some (peek (byte s) a n)"
  by (simp add: read_law span_eq_iff [THEN iffD2])

lemma write_avail:
  assumes "inv s" "length bs \<le> INT_MAX" "avail (byte s) a (length bs)"
  obtains s' where "store s a bs = Some (length bs, s')" "inv s'" "byte s' = poke (byte s) a bs"
  using write_law [OF assms(1,2), of a] assms(3)
  by (auto simp: span_eq_iff [THEN iffD2])

lemma INT_MAX_bound: "n \<le> INT_MAX \<Longrightarrow> n \<le> 18446744073709551616"
  by (simp add: INT_MAX_def)

lemma read_after_write:
  assumes "inv s" "length bs \<le> INT_MAX" "avail (byte s) a (length bs)"
    and "store s a bs = Some (k, s')"
  shows "k = length bs" and "inv s'" and "load s' a (length bs) = Some bs"
proof -
  obtain t where "store s a bs = Some (length bs, t)" "inv t" "byte t = poke (byte s) a bs"
    using write_avail [OF assms(1-3)] by blast
  with assms(4) have s': "k = length bs" "inv s'" "byte s' = poke (byte s) a bs"
    by auto
  then show "k = length bs" "inv s'" by simp_all
  have "avail (byte s') a (length bs)"
    using s' assms(3) by (simp add: avail_poke)
  with s' assms(2) show "load s' a (length bs) = Some bs"
    by (simp add: read_avail peek_poke_same INT_MAX_bound)
qed

lemma read_apart_write:
  assumes "inv s" "length bs \<le> INT_MAX" "avail (byte s) a (length bs)"
    and "store s a bs = Some (k, s')"
    and "n \<le> INT_MAX" "avail (byte s) b n" "apart a (length bs) b n"
  shows "load s' b n = load s b n"
proof -
  obtain t where "store s a bs = Some (length bs, t)" "inv t" "byte t = poke (byte s) a bs"
    using write_avail [OF assms(1-3)] by blast
  with assms(4) have s': "inv s'" "byte s' = poke (byte s) a bs"
    by auto
  have "avail (byte s') b n"
    using s' assms(6) by (simp add: avail_poke)
  with s' assms show ?thesis
    by (simp add: read_avail peek_poke_apart INT_MAX_bound)
qed

lemma read_short: "inv s \<Longrightarrow> n \<le> INT_MAX \<Longrightarrow> load s a n = Some bs \<Longrightarrow>
    length bs = span (byte s) a n"
  by (auto simp: read_law)

end

locale typed_memory = byte_memory + byte_codec +
  assumes size_bound: "size_of \<le> INT_MAX"
begin

lemma store_ok:
  assumes "inv s" "avail (byte s) a size_of"
  obtains s' where "store s a (enc v) = Some (size_of, s')" "inv s'"
    "byte s' = poke (byte s) a (enc v)"
  using assms size_bound write_avail [of s "enc v" a] by (auto simp: length_enc)

lemma load_store:
  assumes "inv s" "avail (byte s) a size_of" "store s a (enc v) = Some (k, s')"
  shows "k = size_of" and "load s' a size_of = Some (enc v)"
    and "map_option (overlay enc dec old) (load s' a size_of) = Some v"
  using assms size_bound read_after_write [of s "enc v" a k s']
  by (simp_all add: length_enc overlay_enc)

end

end
