(* ===== verification/GuestMem.thy ===== *)
theory GuestMem
  imports ByteMemory
begin

text \<open>
  The guest physical memory of \<open>src/src/vm_mem.c\<close>: \<open>map_gpa\<close>, \<open>vm_mem_alloc\<close>,
  \<open>gpa_to_hva\<close>, \<open>vm_mem_read\<close> and \<open>vm_mem_write\<close> on the machine state, the invariant
  that relates the region list to the host memory behind it, and the proof that the reads
  and writes implement the byte-memory contract on it.
\<close>

section \<open>Operations\<close>

definition gpa_to_hva :: "('w, 'z) machine_scheme \<Rightarrow> u64 \<Rightarrow> u64" where
  "gpa_to_hva m g = gpa_to_hva_in (mem_regions m) g"

definition HV_MEMORY_RWX :: "'w hv_ops \<Rightarrow> u64" where
  "HV_MEMORY_RWX H = HV_MEMORY_READ H OR HV_MEMORY_WRITE H OR HV_MEMORY_EXEC H"

text \<open>
  \<open>map_gpa\<close>: 0 or -1, and the new state. The list node comes from \<open>malloc\<close>; when that
  fails the list is restored and the hypervisor's mapping is taken back.
\<close>

definition map_gpa :: "'w hv_ops \<Rightarrow> host_ops \<Rightarrow> ('w, 'z) machine_scheme \<Rightarrow>
    u64 \<Rightarrow> u64 \<Rightarrow> u64 \<Rightarrow> int \<times> ('w, 'z) machine_scheme" where
  "map_gpa H A m gpa npages hva =
     (if npages < 1 then (-1, m)
      else let gpa = gpa AND 0xFFFFFFFFFFFFF000;
               new = \<lparr>r_gpa = gpa, r_npages = npages, r_hva = hva\<rparr>
           in case insert_region (mem_regions m) new of
                None \<Rightarrow> (-1, m)
              | Some rs \<Rightarrow>
                  let (err, w) = hv_vm_map H (world m) hva gpa (npages * CONF_PAGE_SIZE) (HV_MEMORY_RWX H)
                  in if err \<noteq> 0 then (-1, m\<lparr>world := w, failures := Suc (failures m)\<rparr>)
                     else if malloc_null A (calls m)
                     then (-1, m\<lparr>world := snd (hv_vm_unmap H w gpa (npages * CONF_PAGE_SIZE)),
                                calls := Suc (calls m), failures := Suc (failures m)\<rparr>)
                     else (0, m\<lparr>world := w, calls := Suc (calls m), mem_regions := rs\<rparr>))"

text \<open>
  \<open>vm_mem_alloc\<close>: \<open>None\<close> for \<open>NULL\<close>, otherwise the host address it returns and the
  guest address it stores through its second argument.
\<close>

definition vm_mem_alloc :: "'w hv_ops \<Rightarrow> host_ops \<Rightarrow> ('w, 'z) machine_scheme \<Rightarrow>
    u64 \<Rightarrow> (u64 \<times> u64) option \<times> ('w, 'z) machine_scheme" where
  "vm_mem_alloc H A m npages =
     (case find_free_mem_region (mem_regions m) npages of
        None \<Rightarrow> (None, m)
      | Some free_gpa \<Rightarrow>
          let (hva, m1) = valloc A m (npages * CONF_PAGE_SIZE)
          in if hva = 0 then (None, m1)
             else let (r, m2) = map_gpa H A m1 free_gpa npages hva
                  in if r \<noteq> 0 then (None, free_block hva (npages * CONF_PAGE_SIZE) m2)
                     else (Some (hva, free_gpa), m2))"

text \<open>
  The loops of \<open>vm_mem_read\<close> and \<open>vm_mem_write\<close>. The counter is an \<open>int\<close>: counting
  past \<open>INT_MAX\<close> is undefined, and so is an access to host memory that is not allocated.
  A read returns the bytes it stored, whose number is the return value of the C function.
\<close>

fun vm_mem_read_loop :: "('w, 'z) machine_scheme \<Rightarrow> u64 \<Rightarrow> nat \<Rightarrow> nat \<Rightarrow> u8 list option" where
  "vm_mem_read_loop m gpa bytes_read 0 = Some []"
| "vm_mem_read_loop m gpa bytes_read (Suc left) =
     (let hva = gpa_to_hva m gpa
      in if hva = 0 then Some []
         else case heap m hva of
           None \<Rightarrow> None
         | Some b \<Rightarrow> if bytes_read = INT_MAX then None
             else map_option ((#) b) (vm_mem_read_loop m (gpa + 1) (Suc bytes_read) left))"

definition vm_mem_read :: "('w, 'z) machine_scheme \<Rightarrow> u64 \<Rightarrow> nat \<Rightarrow> u8 list option" where
  "vm_mem_read m gpa bytes = vm_mem_read_loop m gpa 0 bytes"

fun vm_mem_write_loop :: "('w, 'z) machine_scheme \<Rightarrow> u64 \<Rightarrow> nat \<Rightarrow> u8 list \<Rightarrow>
    (nat \<times> ('w, 'z) machine_scheme) option" where
  "vm_mem_write_loop m gpa bytes_written [] = Some (bytes_written, m)"
| "vm_mem_write_loop m gpa bytes_written (b # bs) =
     (let hva = gpa_to_hva m gpa
      in if hva = 0 then Some (bytes_written, m)
         else if heap m hva = None \<or> bytes_written = INT_MAX then None
         else vm_mem_write_loop (m\<lparr>heap := (heap m)(hva \<mapsto> b)\<rparr>) (gpa + 1) (Suc bytes_written) bs)"

definition vm_mem_write :: "('w, 'z) machine_scheme \<Rightarrow> u64 \<Rightarrow> u8 list \<Rightarrow>
    (nat \<times> ('w, 'z) machine_scheme) option" where
  "vm_mem_write m gpa buf = vm_mem_write_loop m gpa 0 buf"

section \<open>The invariant\<close>

text \<open>
  The region list is well formed and every host byte behind a region is allocated.
  \<open>gbyte\<close> is the guest's view: what guest physical address \<open>g\<close> holds.
\<close>

definition backed :: "('w, 'z) machine_scheme \<Rightarrow> bool" where
  "backed m \<longleftrightarrow> (\<forall>p \<in> set (mem_regions m). \<forall>a. in_block (r_hva p) (r_size p) a \<longrightarrow> heap m a \<noteq> None)"

definition mem_inv :: "('w, 'z) machine_scheme \<Rightarrow> bool" where
  "mem_inv m \<longleftrightarrow> regions_wf (mem_regions m) \<and> backed m"

definition gbyte :: "('w, 'z) machine_scheme \<Rightarrow> u64 \<Rightarrow> u8 option" where
  "gbyte m g = (if gpa_to_hva m g = 0 then None else heap m (gpa_to_hva m g))"

lemma mem_inv_wf: "mem_inv m \<Longrightarrow> regions_wf (mem_regions m)"
  by (simp add: mem_inv_def)

lemma mem_inv_region_ok: "mem_inv m \<Longrightarrow> p \<in> set (mem_regions m) \<Longrightarrow> region_ok p"
  by (simp add: mem_inv_def regions_wf_def)

lemma gpa_to_hva_cases:
  assumes "mem_inv m"
  obtains "gpa_to_hva m g = 0" "\<forall>p \<in> set (mem_regions m). \<not> in_region p g"
  | p where "p \<in> set (mem_regions m)" "in_region p g" "region_ok p"
      "gpa_to_hva m g = r_hva p + (g - r_gpa p)" "gpa_to_hva m g \<noteq> 0"
proof (cases "\<exists>p \<in> set (mem_regions m). in_region p g")
  case True
  then obtain p where p: "p \<in> set (mem_regions m)" "in_region p g" by blast
  have wf: "regions_wf (mem_regions m)"
    using assms by (rule mem_inv_wf)
  then have ok: "region_ok p" using p by (simp add: regions_wf_region_ok)
  show ?thesis
    by (rule that(2) [OF p ok])
      (use wf p ok in \<open>simp_all add: gpa_to_hva_def gpa_to_hva_in_region hva_nonzero\<close>)
next
  case False
  with assms that(1) show ?thesis
    by (simp add: gpa_to_hva_def gpa_to_hva_in_none mem_inv_wf)
qed

lemma in_region_block:
  assumes "region_ok p" "in_region p g"
  shows "in_block (r_hva p) (r_size p) (r_hva p + (g - r_gpa p))"
proof -
  have "unat (g - r_gpa p) = unat g - r_lo p"
    using assms by (simp add: in_region_iff unat_diff_le r_lo_def)
  with assms(2) show ?thesis
    by (auto simp: in_block_def in_region_def r_hi_def)
qed

lemma heap_gpa_to_hva: "mem_inv m \<Longrightarrow> gpa_to_hva m g \<noteq> 0 \<Longrightarrow> heap m (gpa_to_hva m g) \<noteq> None"
  by (rule gpa_to_hva_cases [of m g]) (auto simp: mem_inv_def backed_def in_region_block)

lemma gbyte_None_iff: "mem_inv m \<Longrightarrow> gbyte m g = None \<longleftrightarrow> gpa_to_hva m g = 0"
  using heap_gpa_to_hva [of m g] by (auto simp: gbyte_def)

lemma gbyte_mapped_iff:
  "mem_inv m \<Longrightarrow> gbyte m g \<noteq> None \<longleftrightarrow> (\<exists>p \<in> set (mem_regions m). in_region p g)"
  by (simp add: gbyte_None_iff gpa_to_hva_def gpa_to_hva_in_nonzero_iff mem_inv_wf)

text \<open>A write to an allocated host byte keeps the invariant, and changes one guest byte.\<close>

lemma mem_inv_heap_upd:
  "mem_inv m \<Longrightarrow> mem_inv (m\<lparr>heap := (heap m)(a \<mapsto> b)\<rparr>)"
  by (auto simp: mem_inv_def backed_def)

lemma gpa_to_hva_heap_upd [simp]: "gpa_to_hva (m\<lparr>heap := h\<rparr>) = gpa_to_hva m"
  by (simp add: gpa_to_hva_def fun_eq_iff)

lemma gbyte_upd:
  assumes "mem_inv m" "gpa_to_hva m g \<noteq> 0"
  shows "gbyte (m\<lparr>heap := (heap m)(gpa_to_hva m g \<mapsto> b)\<rparr>) = (gbyte m)(g \<mapsto> b)"
proof
  fix g'
  have "g' = g" if "gpa_to_hva m g' = gpa_to_hva m g"
    using that assms gpa_to_hva_in_inject [of "mem_regions m" g' g]
    by (simp add: gpa_to_hva_def mem_inv_wf)
  then show "gbyte (m\<lparr>heap := (heap m)(gpa_to_hva m g \<mapsto> b)\<rparr>) g' = ((gbyte m)(g \<mapsto> b)) g'"
    using assms(2) by (auto simp: gbyte_def)
qed

section \<open>Reads and writes\<close>

lemma vm_mem_read_loop_spec:
  "mem_inv m \<Longrightarrow> k + n \<le> INT_MAX \<Longrightarrow>
     vm_mem_read_loop m g k n = Some (peek (gbyte m) g (span (gbyte m) g n))"
proof (induction n arbitrary: g k)
  case 0
  then show ?case by simp
next
  case (Suc n)
  show ?case
  proof (cases "gpa_to_hva m g = 0")
    case True
    then show ?thesis by (simp add: gbyte_def)
  next
    case False
    then obtain b where b: "heap m (gpa_to_hva m g) = Some b"
      using heap_gpa_to_hva [OF Suc.prems(1)] by blast
    with False have "gbyte m g = Some b"
      by (simp add: gbyte_def)
    with False b Suc.prems Suc.IH [of "Suc k" "g + 1"] show ?thesis
      by (simp add: peek_Suc)
  qed
qed

lemma vm_mem_write_loop_spec:
  "mem_inv m \<Longrightarrow> k + length bs \<le> INT_MAX \<Longrightarrow>
     \<exists>m'. vm_mem_write_loop m g k bs = Some (k + span (gbyte m) g (length bs), m') \<and> mem_inv m'
       \<and> gbyte m' = poke (gbyte m) g (take (span (gbyte m) g (length bs)) bs)
       \<and> (\<exists>h. m' = m\<lparr>heap := h\<rparr> \<and> dom h = dom (heap m))"
proof (induction bs arbitrary: m g k)
  case Nil
  then show ?case by (auto intro!: exI [of _ "heap m"])
next
  case (Cons b bs)
  show ?case
  proof (cases "gpa_to_hva m g = 0")
    case True
    with Cons.prems show ?thesis
      by (auto simp: gbyte_def intro!: exI [of _ "heap m"])
  next
    case False
    let ?m = "m\<lparr>heap := (heap m)(gpa_to_hva m g \<mapsto> b)\<rparr>"
    have h: "heap m (gpa_to_hva m g) \<noteq> None" and inv: "mem_inv ?m"
      using False Cons.prems(1) by (simp_all add: heap_gpa_to_hva mem_inv_heap_upd)
    then obtain c where c: "gbyte m g = Some c"
      using False by (auto simp: gbyte_def)
    have byte: "gbyte ?m = (gbyte m)(g \<mapsto> b)"
      using Cons.prems(1) False by (rule gbyte_upd)
    have dom: "dom (gbyte ?m) = dom (gbyte m)"
      using c byte by auto
    have span: "span (gbyte ?m) a n = span (gbyte m) a n" for a n
      using dom by (rule span_cong)
    have le: "Suc k + length bs \<le> INT_MAX"
      using Cons.prems(2) by simp
    obtain m' h' where
      m': "vm_mem_write_loop ?m (g + 1) (Suc k) bs =
        Some (Suc k + span (gbyte m) (g + 1) (length bs), m')" "mem_inv m'"
      and byte': "gbyte m' = poke (gbyte ?m) (g + 1) (take (span (gbyte m) (g + 1) (length bs)) bs)"
      and h': "m' = ?m\<lparr>heap := h'\<rparr>" "dom h' = dom (heap ?m)"
      using Cons.IH [OF inv le, of "g + 1"] unfolding span by blast
    have "m' = m\<lparr>heap := h'\<rparr>" "dom h' = dom (heap m)"
      using h' h by (simp_all add: insert_absorb domIff)
    moreover have "vm_mem_write_loop m g k (b # bs) =
        Some (k + span (gbyte m) g (length (b # bs)), m')"
      using m'(1) False h c Cons.prems(2) by (simp add: Let_def)
    moreover have "gbyte m' = poke (gbyte m) g (take (span (gbyte m) g (length (b # bs))) (b # bs))"
      using byte' c unfolding byte by simp
    ultimately show ?thesis
      using m'(2) by blast
  qed
qed

interpretation gm: byte_memory mem_inv gbyte vm_mem_read vm_mem_write
proof unfold_locales
  fix m :: "('a, 'b) machine_scheme" and n a
  assume "mem_inv m" "n \<le> INT_MAX"
  then show "vm_mem_read m a n = Some (peek (gbyte m) a (span (gbyte m) a n))"
    by (simp add: vm_mem_read_def vm_mem_read_loop_spec)
next
  fix m :: "('a, 'b) machine_scheme" and bs :: "u8 list" and a
  assume "mem_inv m" "length bs \<le> INT_MAX"
  then show "\<exists>m'. vm_mem_write m a bs = Some (span (gbyte m) a (length bs), m') \<and> mem_inv m'
      \<and> gbyte m' = poke (gbyte m) a (take (span (gbyte m) a (length bs)) bs)"
    using vm_mem_write_loop_spec [of m 0 bs a] by (auto simp: vm_mem_write_def)
qed

interpretation gm32: typed_memory mem_inv gbyte vm_mem_read vm_mem_write 4 bytes32 word32
  by unfold_locales (simp add: INT_MAX_def)

interpretation gm64: typed_memory mem_inv gbyte vm_mem_read vm_mem_write 8 bytes64 word64
  by unfold_locales (simp add: INT_MAX_def)

lemma vm_mem_write_frame:
  assumes "mem_inv m" "length bs \<le> INT_MAX" "vm_mem_write m g bs = Some (k, m')"
  obtains h where "m' = m\<lparr>heap := h\<rparr>" "dom h = dom (heap m)"
  using vm_mem_write_loop_spec [of m 0 bs g] assms by (auto simp: vm_mem_write_def)

end
