(* ===== verification/GuestAlloc.thy ===== *)
theory GuestAlloc
  imports GuestMem
begin

text \<open>
  What \<open>map_gpa\<close> and \<open>vm_mem_alloc\<close> of \<open>src/src/vm_mem.c\<close> do to guest memory:
  the new region appears exactly at its addresses, everything else keeps its contents, the
  invariant is kept, and a failed call leaves memory as it was.
\<close>

section \<open>Page masks\<close>

lemma page_mask_numeral: "(0xFFFFFFFFFFFFF000 :: u64) = NOT (mask 12)"
  by (simp add: mask_eq_exp_minus_1)

lemma and_not_mask_12: "a AND NOT (mask 12) = push_bit 12 (drop_bit 12 a)" for a :: u64
  by (rule bit_word_eqI) (auto simp: bit_simps)

lemma unat_page_mask: "unat (a AND 0xFFFFFFFFFFFFF000) = unat a div 4096 * 4096" for a :: u64
proof -
  have "unat a div 4096 * 4096 < 2 ^ 64"
    by (rule le_less_trans [OF div_times_less_eq_dividend])
      (use unsigned_less [of a, where ?'a = nat] in simp)
  then show ?thesis
    unfolding page_mask_numeral and_not_mask_12
    by (simp add: unsigned_push_bit_eq unsigned_drop_bit_eq push_bit_eq_mult drop_bit_eq_div
        take_bit_nat_eq_self unat_word_ariths unat_div_distrib)
qed

lemma page_mask_aligned [simp]: "page_aligned (a AND 0xFFFFFFFFFFFFF000)"
  unfolding page_aligned_def unat_page_mask by simp

lemma page_mask_id: "page_aligned a \<Longrightarrow> a AND 0xFFFFFFFFFFFFF000 = a"
  by (rule word_eq_by_unat) (simp add: unat_page_mask page_aligned_def)

lemma unat_low_12: "unat (a AND 0xFFF) = unat a mod 4096" for a :: u64
proof -
  have "(0xFFF :: u64) = mask 12"
    by (simp add: mask_eq_exp_minus_1)
  then have "a AND 0xFFF = take_bit 12 a"
    by (simp add: take_bit_eq_mask)
  then show ?thesis
    by (simp add: unsigned_take_bit_eq take_bit_eq_mod unat_mod_distrib)
qed

section \<open>map_gpa\<close>

lemma map_gpa_code: "map_gpa H A m gpa npages hva = (r, m') \<Longrightarrow> r = 0 \<or> r = -1"
  by (auto simp: map_gpa_def Let_def split: if_splits option.splits prod.splits)

lemma map_gpa_error:
  assumes "map_gpa H A m gpa npages hva = (r, m')" "r \<noteq> 0"
  shows "mem_regions m' = mem_regions m" and "heap m' = heap m"
    and "pml4 m' = pml4 m" and "pml4_gpa m' = pml4_gpa m" and "failures m \<le> failures m'"
  using assms
  by (auto simp: map_gpa_def Let_def split: if_splits option.splits prod.splits)

lemma map_gpa_success:
  assumes "map_gpa H A m gpa npages hva = (0, m')"
    and new: "new = \<lparr>r_gpa = gpa AND 0xFFFFFFFFFFFFF000, r_npages = npages, r_hva = hva\<rparr>"
  obtains rs w where "insert_region (mem_regions m) new = Some rs"
    "m' = m\<lparr>world := w, calls := Suc (calls m), mem_regions := rs\<rparr>" "0 < npages"
  using assms
  by (auto simp: map_gpa_def Let_def word_gt_0 split: if_splits option.splits prod.splits)

text \<open>The new region's host buffer: allocated, and apart from the buffers in use.\<close>

definition buffer_ok :: "('w, 'z) machine_scheme \<Rightarrow> mem_region \<Rightarrow> bool" where
  "buffer_ok m new \<longleftrightarrow> (\<forall>p \<in> set (mem_regions m). host_apart p new)
     \<and> (\<forall>a. in_block (r_hva new) (r_size new) a \<longrightarrow> heap m a \<noteq> None)"

lemma map_gpa_inv:
  assumes "mem_inv m" "map_gpa H A m gpa npages hva = (0, m')"
    and new: "new = \<lparr>r_gpa = gpa AND 0xFFFFFFFFFFFFF000, r_npages = npages, r_hva = hva\<rparr>"
    and ok: "region_ok new" and buf: "buffer_ok m new"
  shows "mem_inv m'" and "set (mem_regions m') = insert new (set (mem_regions m))"
    and "insert_region (mem_regions m) new = Some (mem_regions m')"
    and "heap m' = heap m" and "failures m' = failures m"
    and "pml4 m' = pml4 m" and "pml4_gpa m' = pml4_gpa m"
proof -
  obtain rs w where rs: "insert_region (mem_regions m) new = Some rs"
    and m': "m' = m\<lparr>world := w, calls := Suc (calls m), mem_regions := rs\<rparr>"
    using map_gpa_success [OF assms(2) new] .
  have apart: "\<forall>p \<in> set (mem_regions m). host_apart p new"
    using buf by (simp add: buffer_ok_def)
  note ins = insert_region_Some [OF mem_inv_wf [OF assms(1)] ok apart rs]
  have "backed m'"
    using assms(1) buf ins(2) m' by (auto simp: mem_inv_def backed_def buffer_ok_def)
  with ins(1) m' show "mem_inv m'"
    by (simp add: mem_inv_def)
  show "set (mem_regions m') = insert new (set (mem_regions m))"
    using ins(2) m' by simp
  show "insert_region (mem_regions m) new = Some (mem_regions m')"
    and "heap m' = heap m" and "failures m' = failures m"
    and "pml4 m' = pml4 m" and "pml4_gpa m' = pml4_gpa m"
    using rs m' by simp_all
qed

lemma gpa_to_hva_of_region:
  "mem_inv m \<Longrightarrow> p \<in> set (mem_regions m) \<Longrightarrow> in_region p g \<Longrightarrow>
     gpa_to_hva m g = r_hva p + (g - r_gpa p)"
  by (simp add: gpa_to_hva_def gpa_to_hva_in_region mem_inv_wf)

lemma gbyte_insert:
  assumes inv: "mem_inv m" "mem_inv m'"
    and regs: "set (mem_regions m') = insert new (set (mem_regions m))" and "heap m' = heap m"
  shows "gbyte m' g =
    (if in_region new g then heap m (r_hva new + (g - r_gpa new)) else gbyte m g)"
proof (cases "in_region new g")
  case True
  have "region_ok new"
    using inv(2) regs by (simp add: mem_inv_region_ok)
  moreover have "gpa_to_hva m' g = r_hva new + (g - r_gpa new)"
    using inv(2) regs True by (intro gpa_to_hva_of_region) auto
  ultimately show ?thesis
    using True assms(4) hva_nonzero [of new g] by (simp add: gbyte_def)
next
  case False
  have "gpa_to_hva m' g = gpa_to_hva m g"
  proof (cases rule: gpa_to_hva_cases [OF inv(1), of g])
    case 1
    then have "gpa_to_hva m' g = 0"
      using False regs inv(2) by (simp add: gpa_to_hva_def gpa_to_hva_in_none mem_inv_wf)
    with 1 show ?thesis by simp
  next
    case (2 p)
    have "gpa_to_hva m' g = r_hva p + (g - r_gpa p)"
      using regs inv(2) 2 by (intro gpa_to_hva_of_region) auto
    with 2 show ?thesis by simp
  qed
  with False assms(4) show ?thesis
    by (simp add: gbyte_def)
qed

lemma phys_top_insert:
  assumes "regions_wf rs" "regions_wf rs'" "set rs' = insert new (set rs)"
  shows "phys_top rs' \<le> max (phys_top rs) (r_hi new)"
proof -
  have "rs' \<noteq> []"
    using assms(3) by auto
  then have "last rs' \<in> insert new (set rs)"
    using assms(3) last_in_set by blast
  then show ?thesis
    using \<open>rs' \<noteq> []\<close> r_hi_le_phys_top [OF assms(1)]
    by (auto simp: phys_top_def [of rs'] le_max_iff_disj)
qed

section \<open>vm_mem_alloc\<close>

lemma find_free_mem_region_Some:
  assumes "mem_inv m" "find_free_mem_region (mem_regions m) n = Some g" "unat n * 4096 < 2 ^ 64"
  shows "0 < n" and "page_aligned g" and "unat g \<le> phys_top (mem_regions m)"
    and "free_range (mem_regions m) (unat g) (unat n * 4096)"
proof -
  have n: "0 < n" and g: "g = find_free_loop (mem_regions m) 0 n"
    using assms(2) by (auto simp: find_free_mem_region_def word_gt_0 split: if_splits)
  show "0 < n" by (rule n)
  then have "0 < unat n"
    by (simp add: word_less_nat_alt)
  with assms g show "page_aligned g" "unat g \<le> phys_top (mem_regions m)"
    "free_range (mem_regions m) (unat g) (unat n * 4096)"
    by (simp_all add: find_free_loop_top mem_inv_wf)
qed

lemma valloc_success:
  assumes "valloc_ok A" "valloc A m sz = (p, m1)" "p \<noteq> 0"
  shows "m1 = m\<lparr>calls := Suc (calls m), heap := (\<lambda>a. if in_block p (unat sz) a
      then Some (valloc_fill A (calls m) a) else heap m a)\<rparr>"
    and "unat p + unat sz < 2 ^ 64" and "\<forall>a. in_block p (unat sz) a \<longrightarrow> heap m a = None"
proof -
  have p: "p = valloc_at A (calls m) (heap m) sz"
    using assms(2,3) by (auto simp: valloc_def Let_def split: if_splits)
  show "m1 = m\<lparr>calls := Suc (calls m), heap := (\<lambda>a. if in_block p (unat sz) a
      then Some (valloc_fill A (calls m) a) else heap m a)\<rparr>"
    using assms(2,3) p by (auto simp: valloc_def Let_def split: if_splits)
  show "unat p + unat sz < 2 ^ 64"
    using assms(1,3) p by (simp add: valloc_ok_def)
  then have "unat sz \<le> 2 ^ 64" by simp
  then show "\<forall>a. in_block p (unat sz) a \<longrightarrow> heap m a = None"
    using assms(1,3) p by (auto simp: valloc_ok_def in_block_offset)
qed

text \<open>Host memory may change outside the buffers of the regions.\<close>

definition keeps_guest :: "('w, 'z) machine_scheme \<Rightarrow> (u64 \<rightharpoonup> u8) \<Rightarrow> bool" where
  "keeps_guest m h \<longleftrightarrow> (\<forall>p \<in> set (mem_regions m). \<forall>a. in_block (r_hva p) (r_size p) a \<longrightarrow> h a = heap m a)"

lemma keeps_guest_memory:
  assumes inv: "mem_inv m" and h: "keeps_guest m h"
    and m': "mem_regions m' = mem_regions m" "heap m' = h"
  shows "mem_inv m'" and "gbyte m' = gbyte m"
proof -
  show "mem_inv m'"
    using inv h m' by (auto simp: mem_inv_def backed_def keeps_guest_def)
  have hva: "gpa_to_hva m' = gpa_to_hva m"
    using m'(1) by (simp add: gpa_to_hva_def fun_eq_iff)
  show "gbyte m' = gbyte m"
  proof
    fix x
    show "gbyte m' x = gbyte m x"
    proof (cases rule: gpa_to_hva_cases [OF inv, of x])
      case 1
      then show ?thesis by (simp add: gbyte_def hva)
    next
      case (2 p)
      with h m'(2) in_region_block [of p x] show ?thesis
        by (simp add: gbyte_def hva keeps_guest_def)
    qed
  qed
qed

lemma keeps_guest_fresh:
  assumes "mem_inv m" "\<And>a. B a \<Longrightarrow> heap m a = None" "\<And>a. \<not> B a \<Longrightarrow> h a = heap m a"
  shows "keeps_guest m h"
  using assms unfolding keeps_guest_def mem_inv_def backed_def by blast

lemma fresh_block_apart:
  assumes inv: "mem_inv m" and q: "q \<in> set (mem_regions m)"
    and fresh: "\<And>a. in_block (r_hva new) (r_size new) a \<Longrightarrow> heap m a = None"
    and lt: "h_lo new + r_size new < 2 ^ 64" and pos: "0 < r_size new"
  shows "host_apart q new"
proof (rule ccontr)
  assume "\<not> host_apart q new"
  then have meet: "h_lo q < h_lo new + r_size new" "h_lo new < h_lo q + r_size q"
    by (auto simp: host_apart_def)
  have ok: "region_ok q"
    using inv q by (rule mem_inv_region_ok)
  have "in_block (r_hva q) (r_size q) (max (r_hva q) (r_hva new))"
    "in_block (r_hva new) (r_size new) (max (r_hva q) (r_hva new))"
    using meet ok lt pos r_size_pos [OF ok]
    by (auto simp: in_block_iff region_ok_def h_lo_def max_def word_le_nat_alt)
  then obtain a where "in_block (r_hva q) (r_size q) a" "in_block (r_hva new) (r_size new) a"
    by blast
  then have "heap m a \<noteq> None" "heap m a = None"
    using inv q fresh unfolding mem_inv_def backed_def by blast+
  then show False by simp
qed

lemma valloc_buffer_ok:
  assumes inv: "mem_inv m" and A: "valloc_ok A" and v: "valloc A m (n * CONF_PAGE_SIZE) = (p, m1)"
    and p: "p \<noteq> 0" and n: "unat n * 4096 < 2 ^ 64" "0 < n"
    and new: "new = \<lparr>r_gpa = g, r_npages = n, r_hva = p\<rparr>"
  shows "mem_inv m1" and "buffer_ok m1 new" and "gbyte m1 = gbyte m"
    and "h_lo new + r_size new < 2 ^ 64"
proof -
  note vs = valloc_success [OF A v p]
  have size: "unat (n * CONF_PAGE_SIZE) = r_size new"
    using n new by (simp add: unat_mul_page r_size_def)
  have "keeps_guest m (heap m1)"
    using vs(1,3) by (intro keeps_guest_fresh [OF inv, of "in_block p (unat (n * CONF_PAGE_SIZE))"]) simp_all
  moreover have "mem_regions m1 = mem_regions m"
    using vs(1) by simp
  ultimately show "mem_inv m1" "gbyte m1 = gbyte m"
    by (blast intro: keeps_guest_memory [OF inv])+
  show lt: "h_lo new + r_size new < 2 ^ 64"
    using vs(2) size new by (simp add: h_lo_def)
  have "0 < r_size new"
    using n new by (simp add: r_size_def word_less_nat_alt)
  then have "host_apart q new" if "q \<in> set (mem_regions m)" for q
    using vs(3) lt new unfolding size by (intro fresh_block_apart [OF inv that]) simp_all
  then show "buffer_ok m1 new"
    using vs(1) new size by (auto simp: buffer_ok_def)
qed

text \<open>
  The contract of a successful allocation. \<open>fits m n\<close>: the size in bytes does not wrap,
  and the first free address leaves room below the end of the address space.
\<close>

definition fits :: "('w, 'z) machine_scheme \<Rightarrow> u64 \<Rightarrow> bool" where
  "fits m n \<longleftrightarrow> phys_top (mem_regions m) + unat n * 4096 < 2 ^ 64"

lemma vm_mem_alloc_success:
  assumes inv: "mem_inv m" and A: "valloc_ok A" and n: "fits m n"
    and ret: "vm_mem_alloc H A m n = (Some (hva, g), m')"
  shows "mem_inv m'" and "page_aligned g" and "unat g \<le> phys_top (mem_regions m)"
    and "free_range (mem_regions m) (unat g) (unat n * 4096)"
    and "set (mem_regions m') = insert \<lparr>r_gpa = g, r_npages = n, r_hva = hva\<rparr> (set (mem_regions m))"
    and "\<forall>x. gbyte m' x = (if in_block g (unat n * 4096) x
      then Some (valloc_fill A (calls m) (gpa_to_hva m' x)) else gbyte m x)"
    and "hva \<noteq> 0" and "gpa_to_hva m' g = hva" and "0 < n"
    and "pml4 m' = pml4 m" and "pml4_gpa m' = pml4_gpa m" and "failures m' = failures m"
proof -
  let ?new = "\<lparr>r_gpa = g, r_npages = n, r_hva = hva\<rparr>"
  obtain m1 where free: "find_free_mem_region (mem_regions m) n = Some g"
    and v: "valloc A m (n * CONF_PAGE_SIZE) = (hva, m1)" and hva: "hva \<noteq> 0"
    and map: "map_gpa H A m1 g n hva = (0, m')"
    using ret by (auto simp: vm_mem_alloc_def split: option.splits prod.splits if_splits)
  have n': "unat n * 4096 < 2 ^ 64"
    using n by (simp add: fits_def)
  note ff = find_free_mem_region_Some [OF inv free n']
  note vb = valloc_buffer_ok [where new = ?new and g = g, OF inv A v hva n' ff(1) refl]
  have new: "?new = \<lparr>r_gpa = g AND 0xFFFFFFFFFFFFF000, r_npages = n, r_hva = hva\<rparr>"
    using ff(2) by (simp add: page_mask_id)
  have ok: "region_ok ?new"
    using ff n vb(4) hva
    by (simp add: region_ok_def fits_def r_hi_def r_lo_def r_size_def h_lo_def unat_gt_0)
  note mg = map_gpa_inv [OF vb(1) map new ok vb(2)]
  have regs: "mem_regions m1 = mem_regions m"
    using valloc_success [OF A v hva] by simp
  show inv': "mem_inv m'" by (rule mg)
  show set: "set (mem_regions m') = insert ?new (set (mem_regions m))"
    using mg(2) regs by simp
  show "page_aligned g" "unat g \<le> phys_top (mem_regions m)"
    "free_range (mem_regions m) (unat g) (unat n * 4096)" "0 < n" "hva \<noteq> 0"
    using ff hva by simp_all
  show "pml4 m' = pml4 m" "pml4_gpa m' = pml4_gpa m" "failures m' = failures m"
    using mg valloc_success(1) [OF A v hva] by simp_all
  have in_new: "in_region ?new x \<longleftrightarrow> in_block g (unat n * 4096) x" for x
    using ok by (simp add: in_block_iff in_region_def region_ok_def r_hi_def r_lo_def r_size_def)
  have hva_at: "gpa_to_hva m' x = hva + (x - g)" if "in_region ?new x" for x
    using gpa_to_hva_of_region [OF inv' _ that] set by simp
  have blk: "heap m1 (hva + (x - g)) = Some (valloc_fill A (calls m) (hva + (x - g)))"
    if "in_region ?new x" for x
    using valloc_success(1) [OF A v hva] in_region_block [OF ok that]
    by (simp add: unat_mul_page [OF n'] r_size_def)
  show "\<forall>x. gbyte m' x = (if in_block g (unat n * 4096) x
      then Some (valloc_fill A (calls m) (gpa_to_hva m' x)) else gbyte m x)"
    using gbyte_insert [OF vb(1) inv' mg(2,4)] vb(3) hva_at blk by (simp add: in_new)
  show "gpa_to_hva m' g = hva"
    using hva_at [of g] ok r_lo_less_hi [OF ok] by (simp add: in_region_def r_lo_def)
qed

text \<open>A failed allocation, without undefined behaviour, leaves memory as it was.\<close>

lemma vm_mem_alloc_failure:
  assumes inv: "mem_inv m" and A: "valloc_ok A" and n: "fits m n"
    and ret: "vm_mem_alloc H A m n = (None, m')"
  shows "mem_regions m' = mem_regions m" and "heap m' = heap m" and "pml4 m' = pml4 m"
    and "pml4_gpa m' = pml4_gpa m" and "failures m' = failures m \<longrightarrow> n = 0"
    and "failures m \<le> failures m'"
proof -
  have n': "unat n * 4096 < 2 ^ 64"
    using n by (simp add: fits_def)
  have "mem_regions m' = mem_regions m \<and> heap m' = heap m \<and> pml4 m' = pml4 m
    \<and> pml4_gpa m' = pml4_gpa m \<and> (failures m' = failures m \<longrightarrow> n = 0) \<and> failures m \<le> failures m'"
  proof (cases "find_free_mem_region (mem_regions m) n")
    case None
    with ret show ?thesis
      by (auto simp: vm_mem_alloc_def find_free_mem_region_def word_less_1 split: if_splits)
  next
    case (Some g)
    obtain hva m1 where v: "valloc A m (n * CONF_PAGE_SIZE) = (hva, m1)"
      by fastforce
    show ?thesis
    proof (cases "hva = 0")
      case True
      with Some v ret have "m' = m1" by (simp add: vm_mem_alloc_def)
      moreover have "m1 = m\<lparr>calls := Suc (calls m), failures := Suc (failures m)\<rparr>"
        using v True by (auto simp: valloc_def Let_def split: if_splits)
      ultimately show ?thesis by simp
    next
      case False
      note vs = valloc_success [OF A v False]
      obtain r m2 where map: "map_gpa H A m1 g n hva = (r, m2)"
        by fastforce
      with Some v False ret have r: "r \<noteq> 0"
        and m': "m' = free_block hva (n * CONF_PAGE_SIZE) m2"
        by (auto simp: vm_mem_alloc_def split: if_splits)
      note err = map_gpa_error [OF map r]
      note ff = find_free_mem_region_Some [OF inv Some n']
      let ?new = "\<lparr>r_gpa = g, r_npages = n, r_hva = hva\<rparr>"
      have "region_ok ?new"
        using ff n vs(2) False n'
        by (simp add: region_ok_def fits_def r_hi_def r_lo_def r_size_def h_lo_def unat_gt_0
            unat_mul_page)
      then have "insert_region (mem_regions m) ?new \<noteq> None"
        using ff(4) by (intro free_range_insert mem_inv_wf [OF inv]) (simp_all add: r_lo_def r_size_def)
      then have "failures m < failures m2"
        using map r ff vs(1)
        by (auto simp: map_gpa_def Let_def page_mask_id word_less_1 split: if_splits option.splits prod.splits)
      moreover have "heap m' = heap m"
        using m' False err(2) vs(1,3) by (auto simp: free_block_def)
      ultimately show ?thesis
        using m' False err vs(1) by (simp add: free_block_def)
    qed
  qed
  then show "mem_regions m' = mem_regions m" "heap m' = heap m" "pml4 m' = pml4 m"
    "pml4_gpa m' = pml4_gpa m" "failures m' = failures m \<longrightarrow> n = 0" "failures m \<le> failures m'"
    by simp_all
qed

end
