(* ===== verification/PageTree.thy ===== *)
theory PageTree
  imports Prelude "HOL-Library.Sublist"
begin

text \<open>
  Four-level page tables as a tree over an entry function, apart from the memory that
  holds them: \<open>E t i\<close> is entry \<open>i\<close> of the table at physical address \<open>t\<close>. The theory
  defines the descent along a list of indices, what makes the tables a tree, and proves
  the three updates that \<open>map_gva\<close> performs on an entry: link a fresh empty table, rewrite
  a link to the same table, and store a leaf.
\<close>

section \<open>Descent\<close>

definition child :: "u64 \<Rightarrow> u64" where
  "child e = e AND 0xFFFFFFFFFFFFF000"

fun walk :: "(u64 \<Rightarrow> nat \<Rightarrow> u64) \<Rightarrow> u64 \<Rightarrow> nat list \<Rightarrow> u64 option" where
  "walk E t [] = Some t"
| "walk E t (i # js) = (if E t i = 0 then None else walk E (child (E t i)) js)"

text \<open>A path of the tree above the leaves: at most three indices, each below 512.\<close>

definition is_path :: "nat list \<Rightarrow> bool" where
  "is_path js \<longleftrightarrow> length js \<le> 3 \<and> (\<forall>i \<in> set js. i < 512)"

text \<open>Every table on a path is usable, and no table is reached along two paths.\<close>

definition tree_ok :: "(u64 \<Rightarrow> nat \<Rightarrow> u64) \<Rightarrow> u64 \<Rightarrow> (u64 \<Rightarrow> bool) \<Rightarrow> bool" where
  "tree_ok E root ok \<longleftrightarrow> (\<forall>js t. is_path js \<longrightarrow> walk E root js = Some t \<longrightarrow>
     ok t \<and> (\<forall>ks. is_path ks \<longrightarrow> walk E root ks = Some t \<longrightarrow> ks = js))"

definition is_table :: "(u64 \<Rightarrow> nat \<Rightarrow> u64) \<Rightarrow> u64 \<Rightarrow> u64 \<Rightarrow> bool" where
  "is_table E root t \<longleftrightarrow> (\<exists>js. is_path js \<and> walk E root js = Some t)"

text \<open>The leaf entry below a path of three indices; 0 where a table is missing.\<close>

definition leaf_entry :: "(u64 \<Rightarrow> nat \<Rightarrow> u64) \<Rightarrow> u64 \<Rightarrow> nat list \<Rightarrow> nat \<Rightarrow> u64" where
  "leaf_entry E root js k = (case walk E root js of None \<Rightarrow> 0 | Some t \<Rightarrow> E t k)"

lemma walk_snoc:
  "walk E t (js @ [k]) = (case walk E t js of None \<Rightarrow> None
     | Some s \<Rightarrow> if E s k = 0 then None else Some (child (E s k)))"
  by (induction js arbitrary: t) auto

lemma walk_append:
  "walk E t (js @ ks) = (case walk E t js of None \<Rightarrow> None | Some s \<Rightarrow> walk E s ks)"
  by (induction js arbitrary: t) auto

lemma is_path_snoc: "is_path (js @ [k]) \<longleftrightarrow> is_path js \<and> length js < 3 \<and> k < 512"
  by (auto simp: is_path_def)

lemma is_path_Nil [simp]: "is_path []"
  by (simp add: is_path_def)

lemma tree_ok_ok: "tree_ok E root ok \<Longrightarrow> is_path js \<Longrightarrow> walk E root js = Some t \<Longrightarrow> ok t"
  by (simp add: tree_ok_def)

lemma tree_ok_inj:
  "tree_ok E root ok \<Longrightarrow> is_path js \<Longrightarrow> is_path ks \<Longrightarrow> walk E root js = Some t \<Longrightarrow>
     walk E root ks = Some t \<Longrightarrow> ks = js"
  by (simp add: tree_ok_def)

lemma is_tableI: "is_path js \<Longrightarrow> walk E root js = Some t \<Longrightarrow> is_table E root t"
  by (auto simp: is_table_def)

section \<open>Linking a fresh table\<close>

text \<open>
  \<open>E'\<close> differs from \<open>E\<close>, on the tables of the tree, only in entry \<open>i\<close> of the table at
  path \<open>is\<close>; that entry was 0 and now links a table \<open>c\<close> that was not in the tree and has
  only zero entries.
\<close>

definition fresh_link :: "(u64 \<Rightarrow> nat \<Rightarrow> u64) \<Rightarrow> (u64 \<Rightarrow> nat \<Rightarrow> u64) \<Rightarrow> u64 \<Rightarrow>
    nat list \<Rightarrow> u64 \<Rightarrow> nat \<Rightarrow> u64 \<Rightarrow> bool" where
  "fresh_link E E' root path t i c \<longleftrightarrow>
     is_path (path @ [i]) \<and> walk E root path = Some t \<and> E t i = 0
     \<and> \<not> is_table E root c \<and> E' t i \<noteq> 0 \<and> child (E' t i) = c \<and> (\<forall>k < 512. E' c k = 0)
     \<and> (\<forall>s k. is_table E root s \<longrightarrow> k < 512 \<longrightarrow> (s, k) \<noteq> (t, i) \<longrightarrow> E' s k = E s k)"

lemma fresh_linkD:
  assumes "fresh_link E E' root path t i c"
  shows "is_path path" and "length path < 3" and "i < 512" and "is_path (path @ [i])"
    and "walk E root path = Some t" and "E t i = 0" and "\<not> is_table E root c"
    and "E' t i \<noteq> 0" and "child (E' t i) = c" and "k < 512 \<Longrightarrow> E' c k = 0"
    and "is_table E root s \<Longrightarrow> k < 512 \<Longrightarrow> (s, k) \<noteq> (t, i) \<Longrightarrow> E' s k = E s k"
  using assms by (simp_all add: fresh_link_def is_path_snoc)

lemma fresh_link_walk:
  assumes tree: "tree_ok E root ok" and L: "fresh_link E E' root path t i c"
  shows "is_path js \<Longrightarrow> walk E' root js =
    (if js = path @ [i] then Some c
     else if strict_prefix (path @ [i]) js then None else walk E root js)"
proof (induction js rule: rev_induct)
  case Nil
  then show ?case by (simp add: strict_prefix_def)
next
  case (snoc k js)
  note D = fresh_linkD [OF L]
  from snoc have js: "is_path js" "k < 512" and IH: "walk E' root js =
      (if js = path @ [i] then Some c
       else if strict_prefix (path @ [i]) js then None else walk E root js)"
    by (simp_all add: is_path_snoc)
  have pre: "strict_prefix (path @ [i]) (js @ [k]) \<longleftrightarrow>
      js = path @ [i] \<or> strict_prefix (path @ [i]) js"
    by (auto simp: strict_prefix_def)
  show ?case
  proof (cases "js = path @ [i] \<or> strict_prefix (path @ [i]) js")
    case True
    then have "js @ [k] \<noteq> path @ [i]"
      by (auto simp: strict_prefix_def prefix_def)
    with True IH pre js D(10) show ?thesis
      by (auto simp: walk_snoc)
  next
    case False
    show ?thesis
    proof (cases "walk E root js")
      case None
      with D(5) have "js \<noteq> path" by auto
      with None False IH pre show ?thesis
        by (simp add: walk_snoc)
    next
      case (Some s)
      show ?thesis
      proof (cases "js = path \<and> k = i")
        case True
        with D Some False IH show ?thesis
          by (simp add: walk_snoc)
      next
        case neq: False
        have "s = t \<Longrightarrow> js = path"
          using Some D(1,5) tree js(1) tree_ok_inj by blast
        with neq have "(s, k) \<noteq> (t, i)" by auto
        then have "E' s k = E s k"
          using D(11) is_tableI [OF js(1) Some] js(2) by blast
        moreover have "walk E' root js = Some s"
          using IH False Some by simp
        ultimately show ?thesis
          using Some neq pre False by (auto simp: walk_snoc)
      qed
    qed
  qed
qed

lemma fresh_link_kept:
  assumes tree: "tree_ok E root ok" and L: "fresh_link E E' root path t i c"
    and js: "is_path js" and s: "walk E root js = Some s"
  shows "walk E' root js = Some s"
proof -
  note D = fresh_linkD [OF L]
  have "\<not> prefix (path @ [i]) js"
    using s D(5,6) by (auto simp: prefix_def walk_append)
  with s show ?thesis
    by (auto simp: fresh_link_walk [OF tree L js] strict_prefix_def)
qed

lemma fresh_link_tables:
  assumes tree: "tree_ok E root ok" and L: "fresh_link E E' root path t i c"
  shows "is_table E' root s \<longleftrightarrow> s = c \<or> is_table E root s"
proof
  assume "is_table E' root s"
  then show "s = c \<or> is_table E root s"
    by (auto simp: is_table_def fresh_link_walk [OF tree L] split: if_splits)
next
  assume "s = c \<or> is_table E root s"
  moreover have "walk E' root (path @ [i]) = Some c"
    using fresh_linkD(4) [OF L] by (simp add: fresh_link_walk [OF tree L])
  ultimately show "is_table E' root s"
    using fresh_linkD(4) [OF L] fresh_link_kept [OF tree L] by (auto simp: is_table_def)
qed

lemma fresh_link_tree:
  assumes tree: "tree_ok E root ok" and L: "fresh_link E E' root path t i c"
    and ok_old: "\<And>s. is_table E root s \<Longrightarrow> ok s \<Longrightarrow> ok' s" and ok_new: "ok' c"
  shows "tree_ok E' root ok'"
proof -
  have new: "js = path @ [i] \<and> s = c \<or> walk E root js = Some s \<and> s \<noteq> c"
    if "is_path js" "walk E' root js = Some s" for js s
    using that fresh_linkD(7) [OF L]
    by (auto simp: fresh_link_walk [OF tree L] is_table_def split: if_splits)
  have "ok' s" if "is_path js" "walk E' root js = Some s" for js s
    using new [OF that] tree ok_new ok_old tree_ok_ok is_tableI that(1) by blast
  moreover have "ks = js" if "is_path js" "is_path ks" "walk E' root js = Some s"
    "walk E' root ks = Some s" for js ks s
    using new [OF that(1,3)] new [OF that(2,4)] tree_ok_inj [OF tree that(1,2)] by blast
  ultimately show ?thesis
    unfolding tree_ok_def by blast
qed

lemma fresh_link_leaf:
  assumes tree: "tree_ok E root ok" and L: "fresh_link E E' root path t i c"
    and js: "is_path js" "length js = 3" "k < 512"
  shows "leaf_entry E' root js k = leaf_entry E root js k"
proof (cases "walk E root js")
  case None
  have "leaf_entry E' root js k = 0"
    using None js fresh_linkD(10) [OF L] by (auto simp: leaf_entry_def fresh_link_walk [OF tree L])
  with None show ?thesis by (simp add: leaf_entry_def)
next
  case (Some s)
  note D = fresh_linkD [OF L]
  have "(s, k) \<noteq> (t, i)"
    using Some D(1,2,5) tree js tree_ok_inj by (metis nat_neq_iff prod.inject)
  then have "E' s k = E s k"
    using Some js D(11) is_tableI by blast
  with Some js(1) show ?thesis
    by (simp add: leaf_entry_def fresh_link_kept [OF tree L])
qed

section \<open>Rewriting a link, storing a leaf\<close>

text \<open>
  \<open>E'\<close> differs from \<open>E\<close>, on the tables of the tree, only in entry \<open>i\<close> of the table at
  \<open>path\<close>. Either that table is above the leaves and the entry still links the same table,
  or it is a leaf table.
\<close>

definition entry_update :: "(u64 \<Rightarrow> nat \<Rightarrow> u64) \<Rightarrow> (u64 \<Rightarrow> nat \<Rightarrow> u64) \<Rightarrow> u64 \<Rightarrow>
    nat list \<Rightarrow> u64 \<Rightarrow> nat \<Rightarrow> bool" where
  "entry_update E E' root path t i \<longleftrightarrow>
     is_path path \<and> walk E root path = Some t \<and> i < 512
     \<and> (length path < 3 \<longrightarrow> E t i \<noteq> 0 \<and> E' t i \<noteq> 0 \<and> child (E' t i) = child (E t i))
     \<and> (\<forall>s k. is_table E root s \<longrightarrow> k < 512 \<longrightarrow> (s, k) \<noteq> (t, i) \<longrightarrow> E' s k = E s k)"

lemma entry_updateD:
  assumes "entry_update E E' root path t i"
  shows "is_path path" and "walk E root path = Some t" and "i < 512"
    and "length path < 3 \<Longrightarrow> E t i \<noteq> 0 \<and> E' t i \<noteq> 0 \<and> child (E' t i) = child (E t i)"
    and "is_table E root s \<Longrightarrow> k < 512 \<Longrightarrow> (s, k) \<noteq> (t, i) \<Longrightarrow> E' s k = E s k"
  using assms by (simp_all add: entry_update_def)

lemma entry_update_walk:
  assumes tree: "tree_ok E root ok" and U: "entry_update E E' root path t i"
  shows "is_path js \<Longrightarrow> walk E' root js = walk E root js"
proof (induction js rule: rev_induct)
  case Nil
  then show ?case by simp
next
  case (snoc k js)
  note D = entry_updateD [OF U]
  from snoc have js: "is_path js" "length js < 3" "k < 512"
    and IH: "walk E' root js = walk E root js"
    by (simp_all add: is_path_snoc)
  show ?case
  proof (cases "walk E root js")
    case None
    with IH show ?thesis by (simp add: walk_snoc)
  next
    case (Some s)
    show ?thesis
    proof (cases "(s, k) = (t, i)")
      case True
      then have "path = js"
        using Some D(1,2) tree js(1) tree_ok_inj by blast
      with True Some IH D(4) js(2) show ?thesis
        by (simp add: walk_snoc)
    next
      case False
      then have "E' s k = E s k"
        using D(5) is_tableI [OF js(1) Some] js(3) by blast
      with Some IH show ?thesis by (simp add: walk_snoc)
    qed
  qed
qed

lemma entry_update_tables:
  assumes "tree_ok E root ok" "entry_update E E' root path t i"
  shows "is_table E' root s \<longleftrightarrow> is_table E root s"
  by (auto simp: is_table_def entry_update_walk [OF assms])

lemma entry_update_tree:
  assumes tree: "tree_ok E root ok" and U: "entry_update E E' root path t i"
    and ok_old: "\<And>s. is_table E root s \<Longrightarrow> ok s \<Longrightarrow> ok' s"
  shows "tree_ok E' root ok'"
  using tree ok_old unfolding tree_ok_def
  by (metis is_tableI entry_update_walk [OF tree U])

lemma entry_update_leaf:
  assumes tree: "tree_ok E root ok" and U: "entry_update E E' root path t i"
    and js: "is_path js" "length js = 3" "k < 512"
  shows "leaf_entry E' root js k =
    (if js = path \<and> k = i then E' t i else leaf_entry E root js k)"
proof (cases "walk E root js")
  case None
  with entry_updateD(2) [OF U] js(1) show ?thesis
    by (auto simp: leaf_entry_def entry_update_walk [OF tree U])
next
  case (Some s)
  note D = entry_updateD [OF U]
  show ?thesis
  proof (cases "js = path \<and> k = i")
    case True
    with D(2) js(1) show ?thesis by (simp add: leaf_entry_def entry_update_walk [OF tree U])
  next
    case False
    then have "(s, k) \<noteq> (t, i)"
      using Some D(1,2) tree js(1) tree_ok_inj by blast
    then have "E' s k = E s k"
      using Some js D(5) is_tableI by blast
    with Some False js(1) show ?thesis
      by (auto simp: leaf_entry_def entry_update_walk [OF tree U])
  qed
qed

end
