(* ===== verification/PageTables.thy ===== *)
theory PageTables
  imports GuestAlloc PageTree
begin

text \<open>
  Guest virtual memory in \<open>src/src/vm_mem.c\<close>: \<open>decode_gva\<close>, \<open>map_gva\<close>,
  \<open>gva_to_gpa\<close>, \<open>vm_mem_verify\<close> and \<open>vm_mem_init\<close>, which build and read four-level
  page tables inside guest physical memory. This theory holds the definitions and relates
  single entries in memory to the entry functions of \<open>PageTree\<close>.
\<close>

section \<open>Operations\<close>

record virtual_address =
  pml4_idx :: u16
  pdpt_idx :: u16
  pd_idx :: u16
  pt_idx :: u16
  va_offset :: u16

definition decode_gva :: "u64 \<Rightarrow> virtual_address" where
  "decode_gva gva = \<lparr>
     pml4_idx = ucast ((drop_bit 39 gva AND 0x1FF) * 8),
     pdpt_idx = ucast ((drop_bit 30 gva AND 0x1FF) * 8),
     pd_idx = ucast ((drop_bit 21 gva AND 0x1FF) * 8),
     pt_idx = ucast ((drop_bit 12 gva AND 0x1FF) * 8),
     va_offset = ucast (gva AND 0xFFF)\<rparr>"

text \<open>Reading a \<open>uint64_t\<close> variable whose value is \<open>old\<close> from guest memory.\<close>

definition read_u64 :: "('w, 'z) machine_scheme \<Rightarrow> u64 \<Rightarrow> u64 \<Rightarrow> u64 option" where
  "read_u64 m a old = map_option (overlay bytes64 word64 old) (vm_mem_read m a 8)"

definition PRESENT :: u64 where "PRESENT = 0x1"

definition WRITE :: u64 where "WRITE = 0x2"

text \<open>
  The step that \<open>map_gva\<close> performs at each level above the last: read the entry at
  \<open>addr\<close>, allocate a table if it is 0, write the entry back, go on with the table. \<open>e0\<close>
  and \<open>t0\<close> are the values of the uninitialised locals; the result of \<open>vm_mem_alloc\<close>
  and the byte counts are not checked.
\<close>

definition next_table :: "'w hv_ops \<Rightarrow> host_ops \<Rightarrow> u64 \<Rightarrow> u64 \<Rightarrow> ('w, 'z) machine_scheme \<Rightarrow>
    u64 \<Rightarrow> (u64 \<times> ('w, 'z) machine_scheme) option" where
  "next_table H A e0 t0 m addr = do {
     e \<leftarrow> read_u64 m addr e0;
     let (t, m1) =
       (if e = 0 then (case vm_mem_alloc H A m 1 of
            (None, m1) \<Rightarrow> (t0, m1) | (Some (hva, g), m1) \<Rightarrow> (g, m1))
        else (e AND 0xFFFFFFFFFFFFF000, m));
     (n, m2) \<leftarrow> vm_mem_write m1 addr (bytes64 (0 OR PRESENT OR WRITE OR t));
     Some (t, m2)
   }"

text \<open>One iteration of the loop of \<open>map_gva\<close>.\<close>

definition map_gva_page :: "'w hv_ops \<Rightarrow> host_ops \<Rightarrow> (local_var \<Rightarrow> u64) \<Rightarrow>
    ('w, 'z) machine_scheme \<Rightarrow> u64 \<Rightarrow> u64 \<Rightarrow> ('w, 'z) machine_scheme option" where
  "map_gva_page H A u m gva gpa = do {
     let vaddr = decode_gva gva;
     (pdpt_gpa, m) \<leftarrow> next_table H A (u L_pml4e) (u L_pdpt_gpa) m (pml4_gpa m + ucast (pml4_idx vaddr));
     (pd_gpa, m) \<leftarrow> next_table H A (u L_pdpte) (u L_pd_gpa) m (pdpt_gpa + ucast (pdpt_idx vaddr));
     (pt_gpa, m) \<leftarrow> next_table H A (u L_pde) (u L_pt_gpa) m (pd_gpa + ucast (pd_idx vaddr));
     let pte = 0 OR PRESENT OR WRITE OR (gpa AND 0xFFFFFFFFFFFFF000);
     (n, m) \<leftarrow> vm_mem_write m (pt_gpa + ucast (pt_idx vaddr)) (bytes64 pte);
     Some m
   }"

fun map_gva_loop :: "'w hv_ops \<Rightarrow> host_ops \<Rightarrow> (nat \<Rightarrow> local_var \<Rightarrow> u64) \<Rightarrow>
    ('w, 'z) machine_scheme \<Rightarrow> u64 \<Rightarrow> u64 \<Rightarrow> nat \<Rightarrow> ('w, 'z) machine_scheme option" where
  "map_gva_loop H A u m gva gpa 0 = Some m"
| "map_gva_loop H A u m gva gpa (Suc npages) = do {
     m \<leftarrow> map_gva_page H A (u npages) m gva gpa;
     map_gva_loop H A u m (gva + CONF_PAGE_SIZE) (gpa + CONF_PAGE_SIZE) npages
   }"

text \<open>The root table is allocated by the first call.\<close>

definition map_gva_root :: "'w hv_ops \<Rightarrow> host_ops \<Rightarrow> ('w, 'z) machine_scheme \<Rightarrow>
    bool \<times> ('w, 'z) machine_scheme" where
  "map_gva_root H A m =
     (if pml4 m = 0 then (case vm_mem_alloc H A m 1 of
          (None, m) \<Rightarrow> (False, m)
        | (Some (hva, g), m) \<Rightarrow> (True, m\<lparr>pml4 := hva, pml4_gpa := g\<rparr>))
      else (True, m))"

definition map_gva :: "'w hv_ops \<Rightarrow> host_ops \<Rightarrow> (nat \<Rightarrow> local_var \<Rightarrow> u64) \<Rightarrow>
    ('w, 'z) machine_scheme \<Rightarrow> u64 \<Rightarrow> u64 \<Rightarrow> u64 \<Rightarrow> (int \<times> ('w, 'z) machine_scheme) option" where
  "map_gva H A u m gva npages gpa =
     (let gva = gva AND 0xFFFFFFFFFFFFF000;
          gpa = gpa AND 0xFFFFFFFFFFFFF000;
          (ok, m) = map_gva_root H A m
      in if \<not> ok then Some (-1, m)
         else map_option (Pair 0) (map_gva_loop H A u m gva gpa (unat npages)))"

text \<open>\<open>e0\<close> is the uninitialised local \<open>entry\<close>.\<close>

definition gva_to_gpa :: "u64 \<Rightarrow> ('w, 'z) machine_scheme \<Rightarrow> u64 \<Rightarrow> u64 option" where
  "gva_to_gpa e0 m gva = do {
     let vaddr = decode_gva gva;
     entry \<leftarrow> read_u64 m (pml4_gpa m + ucast (pml4_idx vaddr)) e0;
     let gpa = entry AND 0xFFFFFFFFFF000;
     entry \<leftarrow> read_u64 m (gpa + ucast (pdpt_idx vaddr)) entry;
     let gpa = entry AND 0xFFFFFFFFFF000;
     entry \<leftarrow> read_u64 m (gpa + ucast (pd_idx vaddr)) entry;
     let gpa = entry AND 0xFFFFFFFFFF000;
     entry \<leftarrow> read_u64 m (gpa + ucast (pt_idx vaddr)) entry;
     let gpa = entry AND 0xFFFFFFFFFF000;
     Some (gpa OR ucast (va_offset vaddr))
   }"

definition get_pml4_gpa :: "('w, 'z) machine_scheme \<Rightarrow> u64" where
  "get_pml4_gpa m = pml4_gpa m"

text \<open>\<open>vm_mem_verify\<close>: 0 if every byte of the range translates to a mapped address.\<close>

fun vm_mem_verify_loop :: "(nat \<Rightarrow> u64) \<Rightarrow> ('w, 'z) machine_scheme \<Rightarrow> u64 \<Rightarrow> nat \<Rightarrow> int option" where
  "vm_mem_verify_loop u m gva 0 = Some 0"
| "vm_mem_verify_loop u m gva (Suc nbytes) = do {
     gpa \<leftarrow> gva_to_gpa (u nbytes) m gva;
     if gpa_to_hva m gpa = 0 then Some (-1) else vm_mem_verify_loop u m (gva + 1) nbytes
   }"

definition vm_mem_verify :: "(nat \<Rightarrow> u64) \<Rightarrow> ('w, 'z) machine_scheme \<Rightarrow> u64 \<Rightarrow> u64 \<Rightarrow> int option" where
  "vm_mem_verify u m gva nbytes = vm_mem_verify_loop u m gva (unat nbytes)"

definition vm_mem_init :: "'w hv_ops \<Rightarrow> host_ops \<Rightarrow> (nat \<Rightarrow> local_var \<Rightarrow> u64) \<Rightarrow>
    ('w, 'z) machine_scheme \<Rightarrow> u32 \<Rightarrow> (int \<times> ('w, 'z) machine_scheme) option" where
  "vm_mem_init H A u m num_pages =
     (case vm_mem_alloc H A m (ucast num_pages) of
        (None, m) \<Rightarrow> Some (-1, m)
      | (Some (hva, gpa), m) \<Rightarrow>
          if gpa \<noteq> 0 then Some (-1, m)
          else do {
            (r, m) \<leftarrow> map_gva H A u m 0 (ucast num_pages) gpa;
            if r \<noteq> 0 then Some (-1, m) else Some (0, m)
          })"

text \<open>Not implemented in the source: \<open>unmap_gva\<close>, \<open>unmap_gpa\<close>, \<open>vm_mem_destroy\<close>.\<close>

definition unmap_gva :: "('w, 'z) machine_scheme \<Rightarrow> u64 \<Rightarrow> u64 \<Rightarrow> int \<times> ('w, 'z) machine_scheme" where
  "unmap_gva m gva npages = (-1, m)"

definition unmap_gpa :: "('w, 'z) machine_scheme \<Rightarrow> u64 \<Rightarrow> u64 \<Rightarrow> int \<times> ('w, 'z) machine_scheme" where
  "unmap_gpa m gpa npages = (-1, m)"

definition vm_mem_destroy :: "('w, 'z) machine_scheme \<Rightarrow> ('w, 'z) machine_scheme" where
  "vm_mem_destroy m = m"

section \<open>Indices\<close>

text \<open>Index \<open>k\<close> of an address: 3 for the root table down to 0 for the page table.\<close>

definition pidx :: "nat \<Rightarrow> u64 \<Rightarrow> nat" where
  "pidx k gva = unat gva div 2 ^ (12 + 9 * k) mod 512"

definition table_path :: "u64 \<Rightarrow> nat list" where
  "table_path gva = [pidx 3 gva, pidx 2 gva, pidx 1 gva]"

text \<open>The number of the virtual page: the 36 bits that the tables translate.\<close>

definition vpage :: "u64 \<Rightarrow> nat" where
  "vpage gva = unat gva div 4096 mod 2 ^ 36"

lemma pidx_less [simp]: "pidx k gva < 512"
  by (simp add: pidx_def)

lemma length_table_path [simp]: "length (table_path gva) = 3"
  by (simp add: table_path_def)

lemma is_path_table_path [simp]: "is_path (table_path gva)"
  by (simp add: is_path_def table_path_def)

lemma unat_index: "unat (drop_bit n gva AND 0x1FF :: u64) = unat gva div 2 ^ n mod 512"
proof -
  have mask: "(0x1FF :: u64) = mask 9"
    by (simp add: mask_eq_exp_minus_1)
  have self: "take_bit 64 (unat gva) = unat gva"
    by (rule take_bit_nat_eq_self) (use unsigned_less [of gva, where ?'a = nat] in simp)
  have "unat (drop_bit n gva AND 0x1FF :: u64) = unat (take_bit 9 (drop_bit n gva))"
    by (simp only: mask take_bit_eq_mask)
  also have "\<dots> = take_bit 9 (drop_bit n (unat gva))"
    by (simp add: unsigned_take_bit_eq unsigned_drop_bit_eq self)
  also have "\<dots> = unat gva div 2 ^ n mod 512"
    by (simp add: take_bit_eq_mod drop_bit_eq_div)
  finally show ?thesis .
qed

lemma index_offset: "ucast (ucast ((drop_bit n gva AND 0x1FF) * 8 :: u64) :: u16)
    = (of_nat (8 * (unat gva div 2 ^ n mod 512)) :: u64)"
proof (rule word_eq_by_unat)
  define i where "i = unat gva div 2 ^ n mod 512"
  define x :: u64 where "x = (drop_bit n gva AND 0x1FF) * 8"
  have i: "8 * i < 4096"
    unfolding i_def by (simp add: mult.commute)
  have "unat x = unat (drop_bit n gva AND 0x1FF :: u64) * unat (8 :: u64) mod 2 ^ LENGTH(64)"
    unfolding x_def by (rule unat_word_ariths)
  then have x: "unat x = 8 * i"
    using i by (simp only: unat_index i_def [symmetric]) simp
  have x16: "unat (ucast x :: u16) = 8 * i"
    using i x by (subst unat_ucast_small) simp_all
  have "unat (ucast (ucast x :: u16) :: u64) = 8 * i"
    using i x16 by (subst unat_ucast_small) simp_all
  moreover have "unat (of_nat (8 * i) :: u64) = 8 * i"
    using i by (intro unat_of_nat_small) simp
  ultimately show "unat (ucast (ucast ((drop_bit n gva AND 0x1FF) * 8 :: u64) :: u16) :: u64)
      = unat (of_nat (8 * (unat gva div 2 ^ n mod 512)) :: u64)"
    unfolding x_def i_def by simp
qed

lemma decode_gva_index:
  "ucast (pml4_idx (decode_gva gva)) = (of_nat (8 * pidx 3 gva) :: u64)"
  "ucast (pdpt_idx (decode_gva gva)) = (of_nat (8 * pidx 2 gva) :: u64)"
  "ucast (pd_idx (decode_gva gva)) = (of_nat (8 * pidx 1 gva) :: u64)"
  "ucast (pt_idx (decode_gva gva)) = (of_nat (8 * pidx 0 gva) :: u64)"
  by (simp_all add: decode_gva_def index_offset pidx_def del: of_nat_mult)

lemma decode_gva_offset: "ucast (va_offset (decode_gva gva)) = gva AND 0xFFF"
proof (rule word_eq_by_unat)
  define x where "x = gva AND 0xFFF"
  have x: "unat x < 4096"
    by (simp only: x_def unat_low_12 mod_less_divisor zero_less_numeral)
  then have "unat (ucast x :: u16) = unat x"
    by (intro unat_ucast_small) simp
  with x have "unat (ucast (ucast x :: u16) :: u64) = unat x"
    by (subst unat_ucast_small) simp_all
  then show "unat (ucast (va_offset (decode_gva gva)) :: u64) = unat (gva AND 0xFFF)"
    by (simp add: decode_gva_def x_def)
qed

lemma pidx_vpage:
  assumes "k \<le> 3"
  shows "pidx k gva = vpage gva div 2 ^ (9 * k) mod 512"
proof -
  let ?x = "unat gva div 4096"
  have "pidx k gva = ?x div 2 ^ (9 * k) mod 2 ^ 9"
    by (simp add: pidx_def power_add div_mult2_eq)
  also have "\<dots> = ?x mod 2 ^ (9 * k + 9) div 2 ^ (9 * k)"
    by (rule div_exp_mod_exp_eq)
  also have "?x mod 2 ^ (9 * k + 9) = ?x mod 2 ^ 36 mod 2 ^ (9 * k + 9)"
    using assms by (intro mod_mod_cancel [symmetric] le_imp_power_dvd) simp
  also have "\<dots> div 2 ^ (9 * k) = ?x mod 2 ^ 36 div 2 ^ (9 * k) mod 2 ^ 9"
    by (rule div_exp_mod_exp_eq [symmetric])
  finally show ?thesis by (simp add: vpage_def)
qed

lemma vpage_split:
  "vpage x = ((pidx 3 x * 512 + pidx 2 x) * 512 + pidx 1 x) * 512 + pidx 0 x"
proof -
  define v a b c where "v = vpage x" and "a = v div 512" and "b = a div 512" and "c = b div 512"
  have "v < 512 * 512 * 512 * 512"
    by (simp add: v_def vpage_def)
  then have "c mod 512 = c"
    by (simp add: a_def b_def c_def less_mult_imp_div_less)
  then have "v = ((c mod 512 * 512 + b mod 512) * 512 + a mod 512) * 512 + v mod 512"
    using div_mult_mod_eq [of v 512] div_mult_mod_eq [of a 512] div_mult_mod_eq [of b 512]
    by (simp only: a_def [symmetric] b_def [symmetric] c_def [symmetric])
  moreover have "v div 134217728 = c" "v div 262144 = b"
    by (simp_all add: a_def b_def c_def div_mult2_eq [symmetric])
  ultimately have "v = ((v div 134217728 mod 512 * 512 + v div 262144 mod 512) * 512
      + v div 512 mod 512) * 512 + v mod 512"
    by (simp only: a_def)
  moreover have "pidx 3 x = v div 134217728 mod 512" "pidx 2 x = v div 262144 mod 512"
    "pidx 1 x = v div 512 mod 512" "pidx 0 x = v mod 512"
    by (simp_all add: v_def pidx_vpage)
  ultimately show ?thesis
    by (simp only: v_def)
qed

lemma vpage_eq_iff:
  "vpage a = vpage b \<longleftrightarrow> table_path a = table_path b \<and> pidx 0 a = pidx 0 b"
proof
  assume "vpage a = vpage b"
  then show "table_path a = table_path b \<and> pidx 0 a = pidx 0 b"
    by (simp add: table_path_def pidx_vpage)
next
  assume eq: "table_path a = table_path b \<and> pidx 0 a = pidx 0 b"
  show "vpage a = vpage b"
    using eq by (simp only: vpage_split table_path_def list.inject)
qed

end
