(* ===== verification/PageEntries.thy ===== *)
theory PageEntries
  imports PageTables
begin

text \<open>
  Page-table entries in guest memory: reading and writing one entry of a usable table is
  reading and updating the entry function, and one level of \<open>map_gva\<close> (\<open>next_table\<close>)
  either finds the next table or links a fresh empty one, and changes nothing else.
\<close>

section \<open>Entries\<close>

definition entry_addr :: "u64 \<Rightarrow> nat \<Rightarrow> u64" where
  "entry_addr t k = t + of_nat (8 * k)"

definition ent :: "('w, 'z) machine_scheme \<Rightarrow> u64 \<Rightarrow> nat \<Rightarrow> u64" where
  "ent m t k = word64 (peek (gbyte m) (entry_addr t k) 8)"

text \<open>A usable table: one page of mapped guest memory below the 52-bit physical limit.\<close>

definition page_ok :: "('w, 'z) machine_scheme \<Rightarrow> u64 \<Rightarrow> bool" where
  "page_ok m t \<longleftrightarrow> page_aligned t \<and> unat t + 4096 \<le> 2 ^ 52 \<and> avail (gbyte m) t 4096"

lemma unat_entry_addr: "page_ok m t \<Longrightarrow> k < 512 \<Longrightarrow> unat (entry_addr t k) = unat t + 8 * k"
  unfolding entry_addr_def by (rule unat_add_of_nat) (auto simp: page_ok_def)

lemma avail_entry:
  assumes "page_ok m t" "k < 512"
  shows "avail (gbyte m) (entry_addr t k) 8"
proof -
  have "gbyte m (t + of_nat (8 * k + i)) \<noteq> None" if "i < 8" for i
  proof -
    have "8 * k + i < 4096"
      using assms(2) that by simp
    then show ?thesis
      using assms(1) unfolding page_ok_def avail_def by blast
  qed
  then show ?thesis
    by (simp add: avail_def entry_addr_def add.assoc)
qed

lemma bytes64_ent: "bytes64 (ent m t k) = peek (gbyte m) (entry_addr t k) 8"
  by (simp add: ent_def codec64.enc_dec)

lemma read_entry:
  assumes "mem_inv m" "page_ok m t" "k < 512"
  shows "read_u64 m (entry_addr t k) old = Some (ent m t k)"
  using gm.read_avail [OF assms(1) _ avail_entry [OF assms(2,3)]]
  by (simp add: read_u64_def INT_MAX_def codec64.overlay_full ent_def)

lemma page_distance:
  assumes "page_aligned s" "page_aligned t" "s \<noteq> t"
  shows "unat s + 4096 \<le> unat t \<or> unat t + 4096 \<le> unat s"
proof -
  obtain a b where "unat s = 4096 * a" "unat t = 4096 * b"
    using assms(1,2) by (auto simp: page_aligned_def dvd_def)
  moreover have "unat s \<noteq> unat t"
    using assms(3) by (simp add: word_unat_eq_iff)
  ultimately show ?thesis by simp linarith
qed

lemma entries_apart:
  assumes "page_ok m s" "page_ok m t" "j < 512" "k < 512" "(s, j) \<noteq> (t, k)"
  shows "apart (entry_addr t k) 8 (entry_addr s j) 8"
proof (rule apart_by_unat)
  have u: "unat (entry_addr t k) = unat t + 8 * k" "unat (entry_addr s j) = unat s + 8 * j"
    using assms by (simp_all add: unat_entry_addr)
  then show "unat (entry_addr t k) + 8 < 2 ^ 64" "unat (entry_addr s j) + 8 < 2 ^ 64"
    using assms by (auto simp: page_ok_def)
  show "unat (entry_addr t k) + 8 \<le> unat (entry_addr s j) \<or>
      unat (entry_addr s j) + 8 \<le> unat (entry_addr t k)"
  proof (cases "s = t")
    case True
    with assms(5) u show ?thesis by auto
  next
    case False
    with page_distance [of s t] assms u show ?thesis
      by (auto simp: page_ok_def)
  qed
qed

text \<open>The frame of an operation on guest memory that may only write where \<open>W\<close> holds.\<close>

definition frame :: "(u64 \<Rightarrow> bool) \<Rightarrow> ('w, 'z) machine_scheme \<Rightarrow> ('w, 'z) machine_scheme \<Rightarrow> bool" where
  "frame W m m' \<longleftrightarrow> (\<forall>x. gbyte m x \<noteq> None \<longrightarrow>
     gbyte m' x \<noteq> None \<and> (\<not> W x \<longrightarrow> gbyte m' x = gbyte m x))"

lemma frame_avail: "frame W m m' \<Longrightarrow> avail (gbyte m) a n \<Longrightarrow> avail (gbyte m') a n"
  by (auto simp: frame_def avail_def)

lemma frame_page_ok: "frame W m m' \<Longrightarrow> page_ok m t \<Longrightarrow> page_ok m' t"
  by (auto simp: page_ok_def frame_avail)

lemma frame_refl [simp]: "frame W m m"
  by (simp add: frame_def)

lemma write_entry:
  assumes inv: "mem_inv m" and t: "page_ok m t" and k: "k < 512"
    and ret: "vm_mem_write m (entry_addr t k) (bytes64 e) = Some (n, m')"
  shows "mem_inv m'" and "ent m' t k = e"
    and "\<And>s j. page_ok m s \<Longrightarrow> j < 512 \<Longrightarrow> (s, j) \<noteq> (t, k) \<Longrightarrow> ent m' s j = ent m s j"
    and "frame (in_block t 4096) m m'" and "mem_regions m' = mem_regions m"
    and "pml4 m' = pml4 m" and "pml4_gpa m' = pml4_gpa m" and "failures m' = failures m"
proof -
  note av = avail_entry [OF t k]
  have len: "length (bytes64 e) = 8"
    by (simp add: codec64.length_enc)
  obtain s where "vm_mem_write m (entry_addr t k) (bytes64 e) = Some (8, s)" "mem_inv s"
    "gbyte s = poke (gbyte m) (entry_addr t k) (bytes64 e)"
    using gm64.store_ok [OF inv av, of e] by blast
  with ret have inv': "mem_inv m'" and byte: "gbyte m' = poke (gbyte m) (entry_addr t k) (bytes64 e)"
    by simp_all
  show "mem_inv m'" by (rule inv')
  show "ent m' t k = e"
    by (simp add: ent_def byte peek_poke_same len codec64.dec_enc)
  show "ent m' s j = ent m s j" if "page_ok m s" "j < 512" "(s, j) \<noteq> (t, k)" for s j
    using entries_apart [OF that(1) t that(2) k that(3)]
    by (simp add: ent_def byte peek_poke_apart len)
  have "in_block (entry_addr t k) 8 x \<Longrightarrow> in_block t 4096 x" for x
    using t k by (auto simp: in_block_iff unat_entry_addr page_ok_def)
  then show "frame (in_block t 4096) m m'"
    by (auto simp: frame_def byte poke_apply len)
  obtain h where "m' = m\<lparr>heap := h\<rparr>"
    using vm_mem_write_frame [OF inv _ ret] len by (auto simp: INT_MAX_def)
  then show "mem_regions m' = mem_regions m" "pml4 m' = pml4 m" "pml4_gpa m' = pml4_gpa m"
    "failures m' = failures m"
    by simp_all
qed

lemma frame_trans:
  assumes "frame W m1 m2" "frame W' m2 m3" "\<And>x. gbyte m1 x \<noteq> None \<Longrightarrow> W' x \<Longrightarrow> W x"
  shows "frame W m1 m3"
  unfolding frame_def
proof (intro allI impI)
  fix x
  assume x: "gbyte m1 x \<noteq> None"
  then have x2: "gbyte m2 x \<noteq> None" and s2: "\<not> W x \<longrightarrow> gbyte m2 x = gbyte m1 x"
    using assms(1) unfolding frame_def by blast+
  then have "gbyte m3 x \<noteq> None" and s3: "\<not> W' x \<longrightarrow> gbyte m3 x = gbyte m2 x"
    using assms(2) unfolding frame_def by blast+
  with s2 assms(3) [OF x] show "gbyte m3 x \<noteq> None \<and> (\<not> W x \<longrightarrow> gbyte m3 x = gbyte m1 x)"
    by auto
qed

section \<open>Links\<close>

definition link_to :: "u64 \<Rightarrow> u64" where
  "link_to t = 0 OR PRESENT OR WRITE OR t"

lemma link_to_eq: "link_to t = 3 OR t"
  by (simp add: link_to_def PRESENT_def WRITE_def flip: or.assoc)

lemma child_link_to: "page_aligned t \<Longrightarrow> child (link_to t) = t"
  by (simp add: child_def link_to_eq bit.conj_disj_distrib2 page_mask_id)

lemma link_to_nonzero: "link_to t \<noteq> 0"
proof
  assume "link_to t = 0"
  then have "bit (3 OR t) 0 = bit (0 :: u64) 0"
    by (simp only: link_to_eq)
  then show False by (simp add: bit_or_iff)
qed

lemma mask_52: "(0xFFFFFFFFFF000 :: u64) = mask 52 AND NOT (mask 12)"
  by (simp add: mask_eq_exp_minus_1)

lemma phys_mask: "page_aligned t \<Longrightarrow> unat t < 2 ^ 52 \<Longrightarrow> t AND 0xFFFFFFFFFF000 = t"
proof -
  assume t: "page_aligned t" "unat t < 2 ^ 52"
  have "unat (take_bit 52 t) = unat t"
    using t(2) by (simp add: unsigned_take_bit_eq take_bit_nat_eq_self)
  then have "take_bit 52 t = t"
    by (rule word_eq_by_unat)
  then have "t AND mask 52 = t"
    by (simp add: take_bit_eq_mask)
  then show ?thesis
    using page_mask_id [OF t(1)] unfolding mask_52 page_mask_numeral
    by (simp only: and.assoc [symmetric])
qed

lemma phys_mask_link: "page_aligned t \<Longrightarrow> unat t < 2 ^ 52 \<Longrightarrow> link_to t AND 0xFFFFFFFFFF000 = t"
  by (simp add: link_to_eq bit.conj_disj_distrib2 phys_mask)

lemma phys_mask_child:
  assumes "unat (child e) < 2 ^ 52"
  shows "e AND 0xFFFFFFFFFF000 = child e"
proof -
  have "child e AND 0xFFFFFFFFFF000 = child e"
    using assms by (intro phys_mask) (simp_all add: child_def)
  moreover have "child e AND 0xFFFFFFFFFF000 = e AND 0xFFFFFFFFFF000"
    by (simp add: child_def and.assoc)
  ultimately show ?thesis by simp
qed

end
