(* ===== verification/PageMapping.thy ===== *)
theory PageMapping
  imports PageEntries
begin

text \<open>
  The correctness of \<open>map_gva\<close>: it keeps the page tables a tree, maps exactly the pages
  it is asked to map, and writes to page tables only; and what \<open>gva_to_gpa\<close> computes on
  such tables. The run is assumed free of failing host calls where the code ignores them.
\<close>

section \<open>Page tables of a machine\<close>

definition pt_ok :: "('w, 'z) machine_scheme \<Rightarrow> bool" where
  "pt_ok m \<longleftrightarrow> tree_ok (ent m) (pml4_gpa m) (page_ok m)"

definition table :: "('w, 'z) machine_scheme \<Rightarrow> u64 \<Rightarrow> bool" where
  "table m t \<longleftrightarrow> is_table (ent m) (pml4_gpa m) t"

definition table_byte :: "('w, 'z) machine_scheme \<Rightarrow> u64 \<Rightarrow> bool" where
  "table_byte m x \<longleftrightarrow> (\<exists>t. table m t \<and> in_block t 4096 x)"

definition descend :: "('w, 'z) machine_scheme \<Rightarrow> nat list \<Rightarrow> u64 option" where
  "descend m js = walk (ent m) (pml4_gpa m) js"

definition leaf :: "('w, 'z) machine_scheme \<Rightarrow> nat list \<Rightarrow> nat \<Rightarrow> u64" where
  "leaf m js k = leaf_entry (ent m) (pml4_gpa m) js k"

text \<open>The tables grow: paths stay, and only bytes of tables may have changed.\<close>

definition grows :: "('w, 'z) machine_scheme \<Rightarrow> ('w, 'z) machine_scheme \<Rightarrow> bool" where
  "grows m m' \<longleftrightarrow> mem_inv m' \<and> pt_ok m' \<and> pml4 m' = pml4 m \<and> pml4_gpa m' = pml4_gpa m
     \<and> (\<forall>js s. is_path js \<longrightarrow> descend m js = Some s \<longrightarrow> descend m' js = Some s)
     \<and> frame (table_byte m) m m'
     \<and> (\<forall>x. gbyte m x \<noteq> None \<longrightarrow> table_byte m' x \<longrightarrow> table_byte m x)"

lemma grows_trans: "grows m1 m2 \<Longrightarrow> grows m2 m3 \<Longrightarrow> grows m1 m3"
proof -
  assume g: "grows m1 m2" "grows m2 m3"
  have mapped: "gbyte m2 x \<noteq> None" if "gbyte m1 x \<noteq> None" for x
    using g(1) that unfolding grows_def frame_def by blast
  have "frame (table_byte m1) m1 m3"
    by (rule frame_trans [of _ _ m2 "table_byte m2"]) (use g in \<open>simp_all add: grows_def\<close>)
  moreover have "table_byte m1 x" if "gbyte m1 x \<noteq> None" "table_byte m3 x" for x
    using g that mapped unfolding grows_def by blast
  ultimately show ?thesis
    using g by (simp add: grows_def)
qed

lemma grows_refl: "mem_inv m \<Longrightarrow> pt_ok m \<Longrightarrow> grows m m"
  by (simp add: grows_def)

lemma growsD:
  assumes "grows m m'"
  shows "mem_inv m'" and "pt_ok m'" and "pml4 m' = pml4 m" and "pml4_gpa m' = pml4_gpa m"
    and "is_path js \<Longrightarrow> descend m js = Some s \<Longrightarrow> descend m' js = Some s"
  using assms by (simp_all add: grows_def)

lemma pt_ok_page: "pt_ok m \<Longrightarrow> table m t \<Longrightarrow> page_ok m t"
  unfolding pt_ok_def table_def is_table_def by (blast intro: tree_ok_ok)

lemma descend_page: "pt_ok m \<Longrightarrow> is_path js \<Longrightarrow> descend m js = Some t \<Longrightarrow> page_ok m t"
  unfolding pt_ok_def descend_def by (rule tree_ok_ok)

lemma descend_table: "is_path js \<Longrightarrow> descend m js = Some t \<Longrightarrow> table m t"
  unfolding table_def descend_def by (rule is_tableI)

section \<open>One level\<close>

lemma page_ok_mapped: "page_ok m t \<Longrightarrow> gbyte m t \<noteq> None"
  by (auto simp: page_ok_def avail_def dest: spec [of _ 0])

lemma in_block_page: "page_ok m t \<Longrightarrow> in_block t 4096 t"
  by (simp add: in_block_def)

lemma page_block_mapped: "page_ok m t \<Longrightarrow> in_block t 4096 x \<Longrightarrow> gbyte m x \<noteq> None"
  by (auto simp: page_ok_def avail_def in_block_offset)

lemma frame_ent:
  assumes fr: "frame W m m'" and s: "page_ok m s" "k < 512" and out: "\<And>x. in_block s 4096 x \<Longrightarrow> \<not> W x"
  shows "ent m' s k = ent m s k"
proof -
  have "gbyte m' (entry_addr s k + of_nat i) = gbyte m (entry_addr s k + of_nat i)" if i: "i < 8" for i
  proof -
    have "8 * k + i < 4096"
      using i s(2) by simp
    then have "in_block s 4096 (s + of_nat (8 * k + i))"
      by (rule in_blockI) simp
    then have "\<not> W (entry_addr s k + of_nat i)"
      by (intro out) (simp add: entry_addr_def add.assoc)
    with fr avail_entry [OF s] i show ?thesis
      by (simp add: frame_def avail_def)
  qed
  then have "peek (gbyte m') (entry_addr s k) 8 = peek (gbyte m) (entry_addr s k) 8"
    unfolding peek_def by (intro map_cong) auto
  then show ?thesis
    by (simp only: ent_def)
qed

text \<open>Tables whose bytes do not change stay the same tables.\<close>

lemma frame_walk:
  assumes pt: "pt_ok m" and fr: "frame W m m'" and out: "\<And>x. table_byte m x \<Longrightarrow> \<not> W x"
  shows "is_path js \<Longrightarrow> walk (ent m') (pml4_gpa m) js = walk (ent m) (pml4_gpa m) js"
proof (induction js rule: rev_induct)
  case Nil
  then show ?case by simp
next
  case (snoc k js)
  then have js: "is_path js" "k < 512"
    by (simp_all add: is_path_snoc)
  show ?case
  proof (cases "walk (ent m) (pml4_gpa m) js")
    case None
    with snoc.IH [OF js(1)] show ?thesis by (simp add: walk_snoc)
  next
    case (Some t)
    then have "descend m js = Some t"
      by (simp add: descend_def)
    with pt js(1) have "page_ok m t" "table m t"
      by (auto intro: descend_page descend_table)
    then have "ent m' t k = ent m t k"
      using out by (intro frame_ent [OF fr _ js(2)]) (auto simp: table_byte_def)
    with Some snoc.IH [OF js(1)] show ?thesis
      by (simp add: walk_snoc)
  qed
qed

lemma frame_tables:
  assumes pt: "pt_ok m" and fr: "frame W m m'" and root: "pml4_gpa m' = pml4_gpa m"
    and out: "\<And>x. table_byte m x \<Longrightarrow> \<not> W x"
  shows "pt_ok m'" and "table_byte m' x \<longleftrightarrow> table_byte m x"
    and "is_path js \<Longrightarrow> k < 512 \<Longrightarrow> leaf m' js k = leaf m js k"
proof -
  have w: "walk (ent m') (pml4_gpa m) js = walk (ent m) (pml4_gpa m) js" if "is_path js" for js
    using frame_walk [OF pt fr _ that] out by blast
  have "tree_ok (ent m') (pml4_gpa m) (page_ok m)"
    using pt unfolding pt_ok_def tree_ok_def by (simp add: w)
  then show "pt_ok m'"
    using frame_page_ok [OF fr] unfolding pt_ok_def tree_ok_def root by blast
  show "table_byte m' x \<longleftrightarrow> table_byte m x"
    unfolding table_byte_def table_def is_table_def root by (metis w)
  show "leaf m' js k = leaf m js k" if js: "is_path js" and k: "k < 512"
  proof (cases "walk (ent m) (pml4_gpa m) js")
    case None
    with w [OF js] show ?thesis
      by (simp add: leaf_def leaf_entry_def root)
  next
    case (Some t)
    then have "page_ok m t" "table m t"
      using pt js by (auto simp: descend_def [symmetric] intro: descend_page descend_table)
    then have "ent m' t k = ent m t k"
      using out by (intro frame_ent [OF fr _ k]) (auto simp: table_byte_def)
    with Some w [OF js] show ?thesis
      by (simp add: leaf_def leaf_entry_def root)
  qed
qed

lemma alloc_table:
  assumes inv: "mem_inv m" and A: "valloc_ok A" "valloc_zeroed A"
    and room: "phys_top (mem_regions m) + 4096 \<le> 2 ^ 52"
    and ret: "vm_mem_alloc H A m 1 = (Some (hva, g), m1)"
  shows "mem_inv m1" and "page_ok m1 g" and "k < 512 \<Longrightarrow> ent m1 g k = 0"
    and "frame (\<lambda>x. False) m m1" and "in_block g 4096 x \<Longrightarrow> gbyte m x = None"
    and "page_ok m s \<Longrightarrow> k < 512 \<Longrightarrow> ent m1 s k = ent m s k"
    and "pml4 m1 = pml4 m" and "pml4_gpa m1 = pml4_gpa m" and "failures m1 = failures m"
    and "phys_top (mem_regions m1) \<le> phys_top (mem_regions m) + 4096" and "hva \<noteq> 0"
proof -
  have fits: "fits m 1"
    using room by (simp add: fits_def)
  note al = vm_mem_alloc_success [OF inv A(1) fits ret, simplified]
  have byte: "gbyte m1 x = (if in_block g 4096 x then Some 0 else gbyte m x)" for x
    using al(6) A(2) by (simp add: valloc_zeroed_def)
  show "mem_inv m1" "pml4 m1 = pml4 m" "pml4_gpa m1 = pml4_gpa m" "failures m1 = failures m"
    "hva \<noteq> 0"
    using al by simp_all
  show fresh: "gbyte m x = None" if "in_block g 4096 x" for x
  proof (rule ccontr)
    assume "gbyte m x \<noteq> None"
    then obtain p where p: "p \<in> set (mem_regions m)" "in_region p x"
      unfolding gbyte_mapped_iff [OF inv] by blast
    have "unat g + 4096 < 2 ^ 64"
      using al(3) room by simp
    then have "unat g \<le> unat x" "unat x < unat g + 4096"
      using that by (simp_all add: in_block_iff)
    with p al(4) show False
      by (auto simp: free_range_def in_region_def)
  qed
  have "avail (gbyte m1) g 4096"
    by (simp add: avail_def byte in_block_offset) blast
  with al(2,3) room show page: "page_ok m1 g"
    by (simp add: page_ok_def)
  show "ent m1 g k = 0" if k: "k < 512"
  proof -
    have blk: "in_block g 4096 (entry_addr g k + of_nat i)" if "i < 8" for i
    proof -
      have "8 * k + i < 4096" using k that by simp
      then have "in_block g 4096 (g + of_nat (8 * k + i))"
        by (rule in_blockI) simp
      then show ?thesis
        by (simp add: entry_addr_def add.assoc)
    qed
    then have "peek (gbyte m1) (entry_addr g k) 8 = replicate 8 0"
      by (intro nth_equalityI) (auto simp: peek_def byte)
    also have "\<dots> = bytes64 0"
      by (simp add: bytes64_def le_bytes_zero)
    finally show ?thesis
      by (simp add: ent_def codec64.dec_enc)
  qed
  show fr: "frame (\<lambda>x. False) m m1"
    using fresh by (auto simp: frame_def byte)
  show "ent m1 s k = ent m s k" if "page_ok m s" "k < 512" for s k
    using frame_ent [OF fr that] by simp
  show "phys_top (mem_regions m1) \<le> phys_top (mem_regions m) + 4096"
    using phys_top_insert [OF mem_inv_wf [OF inv] mem_inv_wf [OF al(1)] al(5)] al(3)
    by (simp add: r_hi_def r_lo_def r_size_def max_def split: if_splits)
qed

text \<open>A table update by one entry write, in the terms of \<open>PageTree\<close>.\<close>

lemma next_table_found:
  assumes inv: "mem_inv m" and pt: "pt_ok m" and path: "is_path (path @ [i])"
    and at: "descend m path = Some t" and present: "ent m t i \<noteq> 0"
    and ret: "next_table H A e0 t0 m (entry_addr t i) = Some (t', m')"
  shows "grows m m'" and "descend m' (path @ [i]) = Some t'"
    and "\<And>js k. is_path js \<Longrightarrow> length js = 3 \<Longrightarrow> k < 512 \<Longrightarrow> leaf m' js k = leaf m js k"
    and "mem_regions m' = mem_regions m" and "failures m' = failures m"
proof -
  have p: "is_path path" "length path < 3" "i < 512"
    using path by (simp_all add: is_path_snoc)
  have t: "page_ok m t" "table m t"
    using pt p(1) at by (auto intro: descend_page descend_table)
  have next_at: "descend m (path @ [i]) = Some (child (ent m t i))"
    using at present by (simp add: descend_def walk_snoc)
  have c: "page_ok m (child (ent m t i))"
    using pt path next_at by (rule descend_page)
  obtain n where t': "t' = child (ent m t i)"
    and wr: "vm_mem_write m (entry_addr t i) (bytes64 (link_to t')) = Some (n, m')"
    using ret present read_entry [OF inv t(1) p(3), of e0]
    by (auto simp: next_table_def child_def link_to_def Let_def split: Option.bind_splits)
  note w = write_entry [OF inv t(1) p(3) wr]
  have tree: "tree_ok (ent m) (pml4_gpa m) (page_ok m)"
    using pt by (simp add: pt_ok_def)
  have link: "ent m' t i \<noteq> 0 \<and> child (ent m' t i) = child (ent m t i)"
    using w(2) c t' by (simp add: link_to_nonzero child_link_to page_ok_def)
  have U: "entry_update (ent m) (ent m') (pml4_gpa m) path t i"
    unfolding entry_update_def
    using p at present link w(3) pt_ok_page [OF pt]
    by (simp add: descend_def table_def)
  note walk' = entry_update_walk [OF tree U]
  have tables: "table m' s \<longleftrightarrow> table m s" for s
    using entry_update_tables [OF tree U] w(7) by (simp add: table_def)
  have "frame (table_byte m) m m'"
    using w(4) t(2) by (auto simp: frame_def table_byte_def)
  moreover have "pt_ok m'"
    unfolding pt_ok_def w(7) using frame_page_ok [OF w(4)]
    by (intro entry_update_tree [OF tree U])
  ultimately show "grows m m'"
    using w walk' tables by (simp add: grows_def descend_def table_byte_def)
  show "descend m' (path @ [i]) = Some t'"
    using next_at path walk' w(7) t' by (simp add: descend_def)
  show "leaf m' js k = leaf m js k" if "is_path js" "length js = 3" "k < 512" for js k
    using entry_update_leaf [OF tree U that] p(2) w(7) that(2) by (auto simp: leaf_def)
  show "mem_regions m' = mem_regions m" "failures m' = failures m"
    using w by simp_all
qed

text \<open>
  The steps of \<open>next_table\<close> on a missing entry when no host call fails: a new table is
  allocated and the entry is written, nothing else.
\<close>

lemma next_table_steps:
  assumes inv: "mem_inv m" and A: "valloc_ok A"
    and room: "phys_top (mem_regions m) + 4096 \<le> 2 ^ 52" and t: "page_ok m t" "i < 512" and missing: "ent m t i = 0"
    and ret: "next_table H A e0 t0 m (entry_addr t i) = Some (t', m')"
    and nofail: "failures m' = failures m"
  obtains hva m1 n where "vm_mem_alloc H A m 1 = (Some (hva, t'), m1)"
    "vm_mem_write m1 (entry_addr t i) (bytes64 (link_to t')) = Some (n, m')"
proof -
  obtain r m1 where al: "vm_mem_alloc H A m 1 = (r, m1)" by fastforce
  have fits: "fits m 1"
    using room by (simp add: fits_def)
  have rd: "read_u64 m (entry_addr t i) e0 = Some 0"
    using read_entry [OF inv t] missing by simp
  obtain n where
    wr: "vm_mem_write m1 (entry_addr t i) (bytes64 (link_to t')) = Some (n, m')"
    and t': "t' = (case r of None \<Rightarrow> t0 | Some (hva, g) \<Rightarrow> g)"
    using ret rd al
    by (auto simp: next_table_def link_to_def Let_def split: Option.bind_splits option.splits prod.splits)
  have "r \<noteq> None"
  proof
    assume r: "r = None"
    note f = vm_mem_alloc_failure [OF inv A fits al [unfolded r]]
    have "mem_inv m1"
      using inv f by (simp add: mem_inv_def backed_def)
    then obtain h where "m' = m1\<lparr>heap := h\<rparr>"
      using vm_mem_write_frame [OF _ _ wr] by (auto simp: codec64.length_enc INT_MAX_def)
    with f(5,6) nofail show False by simp
  qed
  with t' al wr that show thesis
    by (auto split: option.splits prod.splits)
qed

lemma next_table_linked:
  assumes inv: "mem_inv m" and pt: "pt_ok m" and A: "valloc_ok A" "valloc_zeroed A"
    and room: "phys_top (mem_regions m) + 4096 \<le> 2 ^ 52" and path: "is_path (path @ [i])"
    and at: "descend m path = Some t" and missing: "ent m t i = 0"
    and ret: "next_table H A e0 t0 m (entry_addr t i) = Some (t', m')"
    and nofail: "failures m' = failures m"
  shows "grows m m'" and "descend m' (path @ [i]) = Some t'"
    and "\<And>js k. is_path js \<Longrightarrow> length js = 3 \<Longrightarrow> k < 512 \<Longrightarrow> leaf m' js k = leaf m js k"
    and "phys_top (mem_regions m') \<le> phys_top (mem_regions m) + 4096"
proof -
  have p: "is_path path" "length path < 3" "i < 512"
    using path by (simp_all add: is_path_snoc)
  have t: "page_ok m t" "table m t"
    using pt p(1) at by (auto intro: descend_page descend_table)
  obtain hva m1 n where al: "vm_mem_alloc H A m 1 = (Some (hva, t'), m1)"
    and wr: "vm_mem_write m1 (entry_addr t i) (bytes64 (link_to t')) = Some (n, m')"
    by (rule next_table_steps [OF inv A(1) room t(1) p(3) missing ret nofail])
  note a = alloc_table [OF inv A room al]
  have t1: "page_ok m1 t"
    using a(4) t(1) by (rule frame_page_ok)
  note w = write_entry [OF a(1) t1 p(3) wr]
  have tree: "tree_ok (ent m) (pml4_gpa m) (page_ok m)"
    using pt by (simp add: pt_ok_def)
  have fresh: "\<not> table m t'"
    using a(5) [of t'] pt_ok_page [OF pt] page_ok_mapped in_block_page [OF a(2)] by blast
  have root: "pml4_gpa m' = pml4_gpa m"
    using a(8) w(7) by simp
  have page1: "page_ok m s \<Longrightarrow> page_ok m1 s" for s
    using a(4) by (rule frame_page_ok)
  have L: "fresh_link (ent m) (ent m') (pml4_gpa m) path t i t'"
    unfolding fresh_link_def
  proof (intro conjI allI impI)
    show "is_path (path @ [i])" "walk (ent m) (pml4_gpa m) path = Some t" "ent m t i = 0"
      "\<not> is_table (ent m) (pml4_gpa m) t'"
      using path at missing fresh by (simp_all add: descend_def table_def)
    show "ent m' t i \<noteq> 0" "child (ent m' t i) = t'"
      using w(2) a(2) by (simp_all add: link_to_nonzero child_link_to page_ok_def)
    have "t \<noteq> t'" using fresh t(2) by blast
    then show "ent m' t' k = 0" if "k < 512" for k
      using that w(3) [OF a(2) that] a(3) by simp
    show "ent m' s k = ent m s k"
      if "is_table (ent m) (pml4_gpa m) s" "k < 512" "(s, k) \<noteq> (t, i)" for s k
      using that w(3) [OF page1] a(6) pt_ok_page [OF pt, of s] by (simp add: table_def)
  qed
  have frm: "frame (in_block t 4096) m m'"
    using a(4) w(4) by (auto simp: frame_def)
  have page': "page_ok m s \<Longrightarrow> page_ok m' s" for s
    using frm by (rule frame_page_ok)
  have tables: "table m' s \<longleftrightarrow> s = t' \<or> table m s" for s
    using fresh_link_tables [OF tree L] root by (simp add: table_def)
  have "frame (table_byte m) m m'"
    using frm t(2) by (auto simp: frame_def table_byte_def)
  moreover have "table_byte m x" if "gbyte m x \<noteq> None" "table_byte m' x" for x
    using that a(5) by (auto simp: table_byte_def tables)
  moreover have "pt_ok m'"
    unfolding pt_ok_def root
    using page' frame_page_ok [OF w(4) a(2)] by (intro fresh_link_tree [OF tree L])
  ultimately show "grows m m'"
    using w a root fresh_link_kept [OF tree L] by (simp add: grows_def descend_def)
  show "descend m' (path @ [i]) = Some t'"
    using fresh_link_walk [OF tree L path] root by (simp add: descend_def)
  show "leaf m' js k = leaf m js k" if "is_path js" "length js = 3" "k < 512" for js k
    using fresh_link_leaf [OF tree L that] root by (simp add: leaf_def)
  show "phys_top (mem_regions m') \<le> phys_top (mem_regions m) + 4096"
    using a(10) w(5) by simp
qed

end
