(* ===== verification/MapGva.thy ===== *)
theory MapGva
  imports PageMapping
begin

text \<open>
  The loop of \<open>map_gva\<close>. The abstract view of guest virtual memory is \<open>pte\<close>, the page
  table entry of each virtual page, and \<open>map_gva\<close> refines a run of point updates of it.
  Independently of failing host calls, the code never runs into undefined behaviour and
  keeps the memory invariant.
\<close>

section \<open>No undefined behaviour\<close>

text \<open>What every step keeps, whether or not host calls fail; \<open>k\<close> bounds the new pages.\<close>

definition safe_step :: "nat \<Rightarrow> ('w, 'z) machine_scheme \<Rightarrow> ('w, 'z) machine_scheme \<Rightarrow> bool" where
  "safe_step k m m' \<longleftrightarrow> mem_inv m' \<and> failures m \<le> failures m'
     \<and> phys_top (mem_regions m') \<le> phys_top (mem_regions m) + k * 4096"

lemma safe_step_trans: "safe_step j m m1 \<Longrightarrow> safe_step k m1 m2 \<Longrightarrow> safe_step (j + k) m m2"
  by (simp add: safe_step_def algebra_simps)

lemma safe_step_refl: "mem_inv m \<Longrightarrow> safe_step 0 m m"
  by (simp add: safe_step_def)

lemma safe_stepD: "safe_step k m m' \<Longrightarrow> mem_inv m'"
  by (simp add: safe_step_def)

lemma safe_alloc:
  assumes inv: "mem_inv m" and A: "valloc_ok A" and fits: "fits m n"
    and ret: "vm_mem_alloc H A m n = (r, m')"
  shows "safe_step (unat n) m m'"
proof (cases r)
  case None
  note f = vm_mem_alloc_failure [OF inv A fits ret [unfolded None]]
  then show ?thesis
    using inv by (simp add: safe_step_def mem_inv_def backed_def)
next
  case (Some p)
  obtain hva g where p: "p = (hva, g)" by (cases p)
  note al = vm_mem_alloc_success [OF inv A fits ret [unfolded Some p]]
  show ?thesis
    using al phys_top_insert [OF mem_inv_wf [OF inv] mem_inv_wf [OF al(1)] al(5)]
    by (simp add: safe_step_def r_hi_def r_lo_def r_size_def max_def split: if_splits)
qed

lemma safe_write_word:
  assumes "mem_inv m"
  obtains n m' where "vm_mem_write m a (bytes64 e) = Some (n, m')" "safe_step 0 m m'"
proof -
  have len: "length (bytes64 e) \<le> INT_MAX"
    by (simp add: codec64.length_enc INT_MAX_def)
  obtain m' where w: "vm_mem_write m a (bytes64 e) = Some (span (gbyte m) a (length (bytes64 e)), m')"
    "mem_inv m'"
    using gm.write_law [OF assms len, of a] by blast
  obtain h where "m' = m\<lparr>heap := h\<rparr>"
    using vm_mem_write_frame [OF assms len w(1)] .
  with w(2) have "safe_step 0 m m'"
    by (simp add: safe_step_def)
  with w(1) that show thesis by blast
qed

lemma read_u64_total: "mem_inv m \<Longrightarrow> \<exists>e. read_u64 m a old = Some e"
  using gm.read_law [of m 8 a] by (simp add: read_u64_def INT_MAX_def)

lemma next_table_safe:
  assumes inv: "mem_inv m" and A: "valloc_ok A" and fits: "fits m 1"
  obtains t m' where "next_table H A e0 t0 m a = Some (t, m')" "safe_step 1 m m'"
proof -
  obtain e where e: "read_u64 m a e0 = Some e"
    using read_u64_total [OF inv] by blast
  obtain t m1 where step: "(if e = 0 then (case vm_mem_alloc H A m 1 of
            (None, m1) \<Rightarrow> (t0, m1) | (Some (hva, g), m1) \<Rightarrow> (g, m1))
        else (e AND 0xFFFFFFFFFFFFF000, m)) = (t, m1)" and safe: "safe_step 1 m m1"
  proof (cases "e = 0")
    case True
    obtain r m1 where al: "vm_mem_alloc H A m 1 = (r, m1)" by fastforce
    have "safe_step 1 m m1"
      using safe_alloc [OF inv A fits al] by simp
    with True al that [of "case r of None \<Rightarrow> t0 | Some (hva, g) \<Rightarrow> g" m1] show thesis
      by (simp split: option.splits prod.splits)
  next
    case False
    then show thesis
      using that inv by (simp add: safe_step_def)
  qed
  obtain n m2 where w: "vm_mem_write m1 a (bytes64 (0 OR PRESENT OR WRITE OR t)) = Some (n, m2)"
    "safe_step 0 m1 m2"
    using safe_write_word [OF safe_stepD [OF safe]] .
  have "next_table H A e0 t0 m a = Some (t, m2)"
    unfolding next_table_def Let_def using e step w(1) by simp
  with safe_step_trans [OF safe w(2)] that show thesis by simp
qed

lemma safe_fits:
  "safe_step j m m' \<Longrightarrow> phys_top (mem_regions m) + (j + unat n) * 4096 < 2 ^ 64 \<Longrightarrow> fits m' n"
  by (simp add: safe_step_def fits_def)

lemma map_gva_page_safe:
  assumes inv: "mem_inv m" and A: "valloc_ok A"
    and room: "phys_top (mem_regions m) + 3 * 4096 < 2 ^ 64"
  obtains t3 m1 t2 m2 t1 m3 n m' where
    "next_table H A (u L_pml4e) (u L_pdpt_gpa) m (entry_addr (pml4_gpa m) (pidx 3 gva)) = Some (t3, m1)"
    "next_table H A (u L_pdpte) (u L_pd_gpa) m1 (entry_addr t3 (pidx 2 gva)) = Some (t2, m2)"
    "next_table H A (u L_pde) (u L_pt_gpa) m2 (entry_addr t2 (pidx 1 gva)) = Some (t1, m3)"
    "vm_mem_write m3 (entry_addr t1 (pidx 0 gva)) (bytes64 (link_to (gpa AND 0xFFFFFFFFFFFFF000)))
      = Some (n, m')"
    "map_gva_page H A u m gva gpa = Some m'"
    "safe_step 1 m m1" "safe_step 1 m1 m2" "safe_step 1 m2 m3" "safe_step 0 m3 m'"
proof -
  have f0: "fits m 1"
    using room by (simp add: fits_def)
  obtain t3 m1 where s1: "next_table H A (u L_pml4e) (u L_pdpt_gpa) m
      (entry_addr (pml4_gpa m) (pidx 3 gva)) = Some (t3, m1)" "safe_step 1 m m1"
    using next_table_safe [OF inv A f0] by blast
  have f1: "fits m1 1"
    using safe_fits [OF s1(2), of 1] room by simp
  obtain t2 m2 where s2: "next_table H A (u L_pdpte) (u L_pd_gpa) m1
      (entry_addr t3 (pidx 2 gva)) = Some (t2, m2)" "safe_step 1 m1 m2"
    using next_table_safe [OF safe_stepD [OF s1(2)] A f1] by blast
  have f2: "fits m2 1"
    using safe_fits [OF safe_step_trans [OF s1(2) s2(2)], of 1] room by simp
  obtain t1 m3 where s3: "next_table H A (u L_pde) (u L_pt_gpa) m2
      (entry_addr t2 (pidx 1 gva)) = Some (t1, m3)" "safe_step 1 m2 m3"
    using next_table_safe [OF safe_stepD [OF s2(2)] A f2] by blast
  obtain n m' where w: "vm_mem_write m3 (entry_addr t1 (pidx 0 gva))
      (bytes64 (link_to (gpa AND 0xFFFFFFFFFFFFF000))) = Some (n, m')" "safe_step 0 m3 m'"
    using safe_write_word [OF safe_stepD [OF s3(2)]] .
  have "map_gva_page H A u m gva gpa = Some m'"
    using s1(1) s2(1) s3(1) w(1)
    by (simp add: map_gva_page_def decode_gva_index entry_addr_def [symmetric]
        link_to_def Let_def del: of_nat_mult)
  with s1 s2 s3 w that show thesis by blast
qed

lemma map_gva_loop_safe:
  assumes "mem_inv m" and A: "valloc_ok A"
    and "phys_top (mem_regions m) + 3 * n * 4096 < 2 ^ 64"
  shows "\<exists>m'. map_gva_loop H A u m gva gpa n = Some m' \<and> safe_step (3 * n) m m'"
  using assms(1,3)
proof (induction n arbitrary: m gva gpa)
  case 0
  then show ?case by (simp add: safe_step_refl)
next
  case (Suc n)
  have room: "phys_top (mem_regions m) + 3 * 4096 < 2 ^ 64"
    using Suc.prems(2) by simp
  obtain m1 m2 m3 m' where page: "map_gva_page H A (u n) m gva gpa = Some m'"
    and s: "safe_step 1 m m1" "safe_step 1 m1 m2" "safe_step 1 m2 m3" "safe_step 0 m3 m'"
    using map_gva_page_safe [OF Suc.prems(1) A room, where gva = gva and gpa = gpa and u = "u n" and H = H]
    by metis
  have s': "safe_step 3 m m'"
    using safe_step_trans [OF safe_step_trans [OF safe_step_trans [OF s(1,2)] s(3)] s(4)]
    by (simp add: numeral_3_eq_3)
  obtain m'' where "map_gva_loop H A u m' (gva + CONF_PAGE_SIZE) (gpa + CONF_PAGE_SIZE) n = Some m''"
    "safe_step (3 * n) m' m''"
    using Suc.IH [OF safe_stepD [OF s']] s' Suc.prems(2) by (auto simp: safe_step_def)
  with page safe_step_trans [OF s'] show ?case by fastforce
qed

section \<open>One page\<close>

definition page_path :: "nat \<Rightarrow> nat list" where
  "page_path v = [v div 2 ^ 27 mod 512, v div 2 ^ 18 mod 512, v div 2 ^ 9 mod 512]"

text \<open>The entry for virtual page \<open>v\<close>; 0 where a table is missing.\<close>

definition pte :: "('w, 'z) machine_scheme \<Rightarrow> nat \<Rightarrow> u64" where
  "pte m v = (if pml4 m = 0 \<or> 2 ^ 36 \<le> v then 0 else leaf m (page_path v) (v mod 512))"

lemma page_path_vpage: "page_path (vpage gva) = table_path gva"
  by (simp add: page_path_def table_path_def pidx_vpage)

lemma page_path_path [simp]: "is_path (page_path v)" "length (page_path v) = 3"
  by (simp_all add: is_path_def page_path_def)

lemma vpage_less [simp]: "vpage gva < 2 ^ 36"
  by (simp add: vpage_def)

lemma page_path_inject:
  assumes "v < 2 ^ 36" "page_path v = table_path gva" "v mod 512 = pidx 0 gva"
  shows "v = vpage gva"
proof -
  define a :: u64 where "a = of_nat (v * 4096)"
  have "unat a = v * 4096"
    using assms(1) unfolding a_def by (intro unat_of_nat_small) simp
  then have v: "vpage a = v"
    using assms(1) by (simp add: vpage_def)
  then have "table_path a = table_path gva \<and> pidx 0 a = pidx 0 gva"
    using assms by (metis page_path_vpage pidx_vpage div_by_1 mult_0_right power_0 zero_le)
  then show ?thesis
    using v vpage_eq_iff by metis
qed

lemma next_table_level:
  assumes inv: "mem_inv m" and pt: "pt_ok m" and A: "valloc_ok A" "valloc_zeroed A"
    and room: "phys_top (mem_regions m) + 4096 \<le> 2 ^ 52" and path: "is_path (path @ [i])"
    and at: "descend m path = Some t"
    and ret: "next_table H A e0 t0 m (entry_addr t i) = Some (t', m')"
    and nofail: "failures m' = failures m"
  shows "grows m m'" and "descend m' (path @ [i]) = Some t'"
    and "\<And>js k. is_path js \<Longrightarrow> length js = 3 \<Longrightarrow> k < 512 \<Longrightarrow> leaf m' js k = leaf m js k"
    and "phys_top (mem_regions m') \<le> phys_top (mem_regions m) + 4096"
proof -
  note found = next_table_found [OF inv pt path at _ ret]
  note linked = next_table_linked [OF inv pt A room path at _ ret nofail]
  show "grows m m'" "descend m' (path @ [i]) = Some t'"
    using found(1,2) linked(1,2) by blast+
  show "leaf m' js k = leaf m js k" if "is_path js" "length js = 3" "k < 512" for js k
    using found(3) linked(3) that by blast
  show "phys_top (mem_regions m') \<le> phys_top (mem_regions m) + 4096"
    using found(4) linked(4) by (cases "ent m t i = 0") auto
qed

text \<open>Writing an entry of a last-level table.\<close>

lemma leaf_entry_written:
  assumes inv: "mem_inv m" and pt: "pt_ok m" and at: "descend m (table_path gva) = Some t"
    and w: "vm_mem_write m (entry_addr t (pidx 0 gva)) (bytes64 (link_to p)) = Some (n, m')"
  shows "grows m m'" and "mem_regions m' = mem_regions m"
    and "\<And>js k. is_path js \<Longrightarrow> length js = 3 \<Longrightarrow> k < 512 \<Longrightarrow> leaf m' js k =
      (if js = table_path gva \<and> k = pidx 0 gva then link_to p else leaf m js k)"
proof -
  have "is_path (table_path gva)"
    by (simp add: is_path_def table_path_def)
  then have t: "page_ok m t" "table m t"
    using descend_page [OF pt _ at] descend_table [OF _ at] by simp_all
  note w' = write_entry [OF inv t(1) _ w, simplified]
  have tree: "tree_ok (ent m) (pml4_gpa m) (page_ok m)"
    using pt by (simp add: pt_ok_def)
  have U: "entry_update (ent m) (ent m') (pml4_gpa m) (table_path gva) t (pidx 0 gva)"
    unfolding entry_update_def using at w'(3) pt_ok_page [OF pt]
    by (simp add: descend_def table_def table_path_def is_path_def)
  have tables: "table m' x \<longleftrightarrow> table m x" for x
    using entry_update_tables [OF tree U] w'(7) by (simp add: table_def)
  have "pt_ok m'"
    unfolding pt_ok_def w'(7) using frame_page_ok [OF w'(4)]
    by (intro entry_update_tree [OF tree U])
  moreover have "frame (table_byte m) m m'"
    using w'(4) t(2) by (auto simp: frame_def table_byte_def)
  ultimately show "grows m m'"
    using w' entry_update_walk [OF tree U] tables by (simp add: grows_def descend_def table_byte_def)
  show "mem_regions m' = mem_regions m"
    by (rule w'(5))
  show "leaf m' js k = (if js = table_path gva \<and> k = pidx 0 gva then link_to p else leaf m js k)"
    if "is_path js" "length js = 3" "k < 512" for js k
    using entry_update_leaf [OF tree U that] w'(2,7) by (simp add: leaf_def)
qed

lemma map_gva_page_maps:
  assumes inv: "mem_inv m" and pt: "pt_ok m" and A: "valloc_ok A" "valloc_zeroed A"
    and room: "phys_top (mem_regions m) + 3 * 4096 \<le> 2 ^ 52"
    and ret: "map_gva_page H A u m gva gpa = Some m'" and nofail: "failures m' = failures m"
  shows "grows m m'" and "phys_top (mem_regions m') \<le> phys_top (mem_regions m) + 3 * 4096"
    and "\<And>js k. is_path js \<Longrightarrow> length js = 3 \<Longrightarrow> k < 512 \<Longrightarrow> leaf m' js k =
      (if js = table_path gva \<and> k = pidx 0 gva then link_to (gpa AND 0xFFFFFFFFFFFFF000)
       else leaf m js k)"
proof -
  have room': "phys_top (mem_regions m) + 3 * 4096 < 2 ^ 64"
    using room by simp
  obtain t3 m1 t2 m2 t1 m3 n m4 where
    n1: "next_table H A (u L_pml4e) (u L_pdpt_gpa) m (entry_addr (pml4_gpa m) (pidx 3 gva)) = Some (t3, m1)"
    and n2: "next_table H A (u L_pdpte) (u L_pd_gpa) m1 (entry_addr t3 (pidx 2 gva)) = Some (t2, m2)"
    and n3: "next_table H A (u L_pde) (u L_pt_gpa) m2 (entry_addr t2 (pidx 1 gva)) = Some (t1, m3)"
    and w: "vm_mem_write m3 (entry_addr t1 (pidx 0 gva)) (bytes64 (link_to (gpa AND 0xFFFFFFFFFFFFF000)))
      = Some (n, m4)" and m4: "map_gva_page H A u m gva gpa = Some m4"
    and s: "safe_step 1 m m1" "safe_step 1 m1 m2" "safe_step 1 m2 m3" "safe_step 0 m3 m4"
    using map_gva_page_safe [OF inv A(1) room', where gva = gva and gpa = gpa and u = u and H = H] by metis
  have m': "m4 = m'"
    using m4 ret by simp
  have f: "failures m1 = failures m" "failures m2 = failures m1" "failures m3 = failures m2"
    using s nofail unfolding safe_step_def m' by linarith+
  have top: "phys_top (mem_regions m) + 4096 \<le> 2 ^ 52" "phys_top (mem_regions m1) + 4096 \<le> 2 ^ 52"
    "phys_top (mem_regions m2) + 4096 \<le> 2 ^ 52"
    using s room unfolding safe_step_def by linarith+
  have root: "descend m [] = Some (pml4_gpa m)"
    by (simp add: descend_def)
  have p: "is_path ([] @ [pidx 3 gva])" "is_path ([pidx 3 gva] @ [pidx 2 gva])"
    "is_path ([pidx 3 gva, pidx 2 gva] @ [pidx 1 gva])"
    by (simp_all add: is_path_def)
  note l1 = next_table_level [OF inv pt A top(1) p(1) root n1 f(1)]
  note g1 = growsD [OF l1(1)]
  have at1: "descend m1 [pidx 3 gva] = Some t3"
    using l1(2) by simp
  note l2 = next_table_level [OF g1(1,2) A top(2) p(2) at1 n2 f(2)]
  note g2 = growsD [OF l2(1)]
  have at2: "descend m2 [pidx 3 gva, pidx 2 gva] = Some t2"
    using l2(2) by simp
  note l3 = next_table_level [OF g2(1,2) A top(3) p(3) at2 n3 f(3)]
  note g3 = growsD [OF l3(1)]
  have at3: "descend m3 (table_path gva) = Some t1"
    using l3(2) by (simp add: table_path_def)
  note le = leaf_entry_written [OF g3(1,2) at3 w]
  show "grows m m'"
    using l1(1) l2(1) l3(1) le(1) grows_trans m' by blast
  show "phys_top (mem_regions m') \<le> phys_top (mem_regions m) + 3 * 4096"
    using l1(4) l2(4) l3(4) le(2) m' by simp
  show "leaf m' js k =
      (if js = table_path gva \<and> k = pidx 0 gva then link_to (gpa AND 0xFFFFFFFFFFFFF000)
       else leaf m js k)" if "is_path js" "length js = 3" "k < 512" for js k
    using le(3) [OF that] l1(3) [OF that] l2(3) [OF that] l3(3) [OF that] m' by simp
qed

lemma map_gva_page_pte:
  assumes inv: "mem_inv m" and pt: "pt_ok m" and A: "valloc_ok A" "valloc_zeroed A"
    and room: "phys_top (mem_regions m) + 3 * 4096 \<le> 2 ^ 52" and root: "pml4 m \<noteq> 0"
    and ret: "map_gva_page H A u m gva gpa = Some m'" and nofail: "failures m' = failures m"
  shows "pte m' = (pte m)(vpage gva := link_to (gpa AND 0xFFFFFFFFFFFFF000))"
proof
  fix v
  note mp = map_gva_page_maps [OF inv pt A room ret nofail]
  have "pml4 m' \<noteq> 0"
    using growsD(3) [OF mp(1)] root by simp
  show "pte m' v = ((pte m)(vpage gva := link_to (gpa AND 0xFFFFFFFFFFFFF000))) v"
  proof (cases "v < 2 ^ 36")
    case True
    have "page_path v = table_path gva \<and> v mod 512 = pidx 0 gva \<longleftrightarrow> v = vpage gva"
      using page_path_inject [OF True] by (auto simp: page_path_vpage pidx_vpage)
    with True root \<open>pml4 m' \<noteq> 0\<close> mp(3) [of "page_path v" "v mod 512"] show ?thesis
      by (simp add: pte_def)
  next
    case False
    then have "v \<noteq> vpage gva"
      using vpage_less [of gva] by linarith
    with False show ?thesis by (simp add: pte_def)
  qed
qed

end
