(* ===== verification/VirtMem.thy ===== *)
theory VirtMem
  imports MapGva
begin

text \<open>
  Guest virtual memory as its clients see it: \<open>map_gva\<close> refines point updates of the
  page map, \<open>gva_to_gpa\<close> reads the map, \<open>vm_mem_verify\<close> checks a range against it, and
  \<open>vm_mem_init\<close> leaves the first pages mapped to themselves. The properties of the
  component stand at the end of each section.
\<close>

section \<open>The specification of map_gva\<close>

text \<open>Mapping \<open>n\<close> pages one after the other: the abstract operation.\<close>

fun map_pages :: "(nat \<Rightarrow> u64) \<Rightarrow> u64 \<Rightarrow> u64 \<Rightarrow> nat \<Rightarrow> (nat \<Rightarrow> u64)" where
  "map_pages f gva gpa 0 = f"
| "map_pages f gva gpa (Suc n) =
     map_pages (f(vpage gva := link_to (gpa AND 0xFFFFFFFFFFFFF000)))
       (gva + CONF_PAGE_SIZE) (gpa + CONF_PAGE_SIZE) n"

definition pt_inv :: "('w, 'z) machine_scheme \<Rightarrow> bool" where
  "pt_inv m \<longleftrightarrow> (pml4 m \<noteq> 0 \<longrightarrow> pt_ok m)"

text \<open>The bytes that belong to page tables.\<close>

definition tbyte :: "('w, 'z) machine_scheme \<Rightarrow> u64 \<Rightarrow> bool" where
  "tbyte m x \<longleftrightarrow> pml4 m \<noteq> 0 \<and> table_byte m x"

lemma vpage_add:
  assumes "unat a + 4096 * i < 2 ^ 64" "page_aligned a"
  shows "vpage (a + of_nat (4096 * i)) = (unat a div 4096 + i) mod 2 ^ 36"
proof -
  have "unat (a + of_nat (4096 * i)) = unat a + 4096 * i"
    using assms(1) by (intro unat_add_of_nat) simp
  moreover have "(unat a + 4096 * i) div 4096 = unat a div 4096 + i"
    by simp
  ultimately show ?thesis by (simp only: vpage_def)
qed

lemma map_pages_other:
  "(\<And>i. i < n \<Longrightarrow> v \<noteq> vpage (gva + of_nat (4096 * i))) \<Longrightarrow> map_pages f gva gpa n v = f v"
proof (induction n arbitrary: f gva gpa)
  case 0
  then show ?case by simp
next
  case (Suc n)
  have "v \<noteq> vpage (gva + CONF_PAGE_SIZE + of_nat (4096 * i))" if "i < n" for i
    using Suc.prems [of "Suc i"] that by (simp add: CONF_PAGE_SIZE_def algebra_simps)
  moreover have "v \<noteq> vpage gva"
    using Suc.prems [of 0] by simp
  ultimately show ?case
    using Suc.IH by simp
qed

lemma vpage_inj:
  assumes "page_aligned gva" "unat gva + 4096 * n \<le> 2 ^ 48" "i < n" "j < n"
    and "vpage (gva + of_nat (4096 * i)) = vpage (gva + of_nat (4096 * j))"
  shows "i = j"
proof -
  have "unat gva div 4096 + n \<le> 2 ^ 36"
    using assms(1,2) by (auto simp: page_aligned_def dvd_def)
  moreover have "vpage (gva + of_nat (4096 * i)) = (unat gva div 4096 + i) mod 2 ^ 36"
    "vpage (gva + of_nat (4096 * j)) = (unat gva div 4096 + j) mod 2 ^ 36"
    using assms by (intro vpage_add; simp)+
  ultimately show ?thesis
    using assms(3-5) by simp
qed

lemma map_pages_at:
  assumes "page_aligned gva" "page_aligned gpa" "unat gva + 4096 * n \<le> 2 ^ 48" "i < n"
  shows "map_pages f gva gpa n (vpage (gva + of_nat (4096 * i))) = link_to (gpa + of_nat (4096 * i))"
  using assms
proof (induction n arbitrary: f gva gpa i)
  case 0
  then show ?case by simp
next
  case (Suc n)
  have step: "gva + CONF_PAGE_SIZE + of_nat (4096 * j) = gva + of_nat (4096 * Suc j)"
    "gpa + CONF_PAGE_SIZE + of_nat (4096 * j) = gpa + of_nat (4096 * Suc j)" for j
    by (simp_all add: CONF_PAGE_SIZE_def algebra_simps)
  have lt: "unat gva + 4096 < 2 ^ 64"
    using Suc.prems(3) by simp
  have al: "page_aligned (gva + CONF_PAGE_SIZE)" "page_aligned (gpa + CONF_PAGE_SIZE)"
    using Suc.prems(1,2) by (simp_all add: page_aligned_def CONF_PAGE_SIZE_def unat_word_ariths dvd_mod)
  have u: "unat (gva + CONF_PAGE_SIZE) = unat gva + 4096"
    using lt by (subst unat_add_small) (simp_all add: CONF_PAGE_SIZE_def)
  show ?case
  proof (cases i)
    case 0
    have "vpage gva \<noteq> vpage (gva + CONF_PAGE_SIZE + of_nat (4096 * j))" if "j < n" for j
      using vpage_inj [OF Suc.prems(1,3), of 0 "Suc j"] that unfolding step by auto
    then show ?thesis
      using 0 Suc.prems(2) by (simp add: map_pages_other page_mask_id)
  next
    case (Suc j)
    then have "map_pages (f(vpage gva := link_to (gpa AND 0xFFFFFFFFFFFFF000)))
        (gva + CONF_PAGE_SIZE) (gpa + CONF_PAGE_SIZE) n
        (vpage (gva + CONF_PAGE_SIZE + of_nat (4096 * j)))
      = link_to (gpa + CONF_PAGE_SIZE + of_nat (4096 * j))"
      using Suc.prems u by (intro Suc.IH al) simp_all
    then show ?thesis
      unfolding step using Suc by simp
  qed
qed

section \<open>map_gva\<close>

lemma map_gva_loop_maps:
  assumes "mem_inv m" "pt_ok m" and A: "valloc_ok A" "valloc_zeroed A"
    and "phys_top (mem_regions m) + 3 * n * 4096 \<le> 2 ^ 52" and "pml4 m \<noteq> 0"
    and "map_gva_loop H A u m gva gpa n = Some m'" and "failures m' = failures m"
  shows "grows m m' \<and> pte m' = map_pages (pte m) gva gpa n"
  using assms(1,2,5-8)
proof (induction n arbitrary: m gva gpa)
  case 0
  then show ?case by (simp add: grows_refl)
next
  case (Suc n)
  obtain m1 where page: "map_gva_page H A (u n) m gva gpa = Some m1"
    and rest: "map_gva_loop H A u m1 (gva + CONF_PAGE_SIZE) (gpa + CONF_PAGE_SIZE) n = Some m'"
    using Suc.prems(5) by (auto split: Option.bind_splits)
  have room: "phys_top (mem_regions m) + 3 * 4096 \<le> 2 ^ 52"
    using Suc.prems(3) by simp
  then have room': "phys_top (mem_regions m) + 3 * 4096 < 2 ^ 64"
    by simp
  obtain m2 m3 m4 where s: "safe_step 1 m m2" "safe_step 1 m2 m3" "safe_step 1 m3 m4" "safe_step 0 m4 m1"
    using map_gva_page_safe [OF Suc.prems(1) A(1) room', where gva = gva and gpa = gpa and u = "u n" and H = H]
      page by (metis option.inject)
  then have inv1: "mem_inv m1" and f1: "failures m \<le> failures m1"
    and top1: "phys_top (mem_regions m1) \<le> phys_top (mem_regions m) + 3 * 4096"
    unfolding safe_step_def by simp_all
  have room1: "phys_top (mem_regions m1) + 3 * n * 4096 \<le> 2 ^ 52"
    using top1 Suc.prems(3) by simp
  then have "phys_top (mem_regions m1) + 3 * n * 4096 < 2 ^ 64"
    by simp
  then have "failures m1 \<le> failures m'"
    using map_gva_loop_safe [OF inv1 A(1)] rest unfolding safe_step_def by (metis option.inject)
  with f1 Suc.prems(6) have f: "failures m1 = failures m" "failures m' = failures m1"
    by simp_all
  note mp = map_gva_page_maps [OF Suc.prems(1,2) A room page f(1)]
  note pt = map_gva_page_pte [OF Suc.prems(1,2) A room Suc.prems(4) page f(1)]
  note g = growsD [OF mp(1)]
  have "grows m1 m' \<and> pte m' = map_pages (pte m1) (gva + CONF_PAGE_SIZE) (gpa + CONF_PAGE_SIZE) n"
    using g Suc.prems(4) by (intro Suc.IH [OF g(1,2) room1 _ rest f(2)]) simp
  with grows_trans [OF mp(1)] pt show ?case by simp
qed

lemma empty_root:
  assumes "page_ok m t" "\<And>k. k < 512 \<Longrightarrow> ent m t k = 0" "pml4_gpa m = t"
  shows "pt_ok m" and "leaf m (page_path v) k = 0" and "table m s \<longleftrightarrow> s = t"
proof -
  have walk: "walk (ent m) t js = Some s \<longleftrightarrow> js = [] \<and> s = t" if "is_path js" for js s
    using that assms(2) by (cases js) (auto simp: is_path_def)
  show "pt_ok m"
    using walk assms by (simp add: pt_ok_def tree_ok_def)
  show "table m s \<longleftrightarrow> s = t"
    using walk assms(3) by (auto simp: table_def is_table_def intro: exI [of _ "[]"])
  show "leaf m (page_path v) k = 0"
  proof -
    have "page_path v \<noteq> []"
      by (simp add: page_path_def)
    then have "walk (ent m) t (page_path v) = None"
      using walk [of "page_path v"] by (cases "walk (ent m) t (page_path v)") auto
    then show ?thesis
      using assms(3) by (simp add: leaf_def leaf_entry_def)
  qed
qed

lemma map_gva_root_ok:
  assumes inv: "mem_inv m" and pt: "pt_inv m" and A: "valloc_ok A" "valloc_zeroed A"
    and room: "phys_top (mem_regions m) + 4096 \<le> 2 ^ 52"
    and ret: "map_gva_root H A m = (True, m1)"
  shows "mem_inv m1" and "pt_ok m1" and "pml4 m1 \<noteq> 0" and "pte m1 = pte m"
    and "frame (\<lambda>x. False) m m1" and "gbyte m x \<noteq> None \<Longrightarrow> table_byte m1 x \<Longrightarrow> tbyte m x"
    and "phys_top (mem_regions m1) \<le> phys_top (mem_regions m) + 4096" and "failures m1 = failures m"
proof -
  have "mem_inv m1 \<and> pt_ok m1 \<and> pml4 m1 \<noteq> 0 \<and> pte m1 = pte m \<and> frame (\<lambda>x. False) m m1
    \<and> (gbyte m x \<noteq> None \<longrightarrow> table_byte m1 x \<longrightarrow> tbyte m x)
    \<and> phys_top (mem_regions m1) \<le> phys_top (mem_regions m) + 4096 \<and> failures m1 = failures m"
  proof (cases "pml4 m = 0")
    case False
    with ret have "m1 = m" by (simp add: map_gva_root_def)
    with False inv pt show ?thesis by (simp add: pt_inv_def tbyte_def)
  next
    case True
    obtain hva g m0 where al: "vm_mem_alloc H A m 1 = (Some (hva, g), m0)"
      and m1: "m1 = m0\<lparr>pml4 := hva, pml4_gpa := g\<rparr>"
      using ret True by (auto simp: map_gva_root_def split: option.splits prod.splits)
    note a = alloc_table [OF inv A room al]
    have same: "mem_inv m1 = mem_inv m0" "gbyte m1 = gbyte m0" "mem_regions m1 = mem_regions m0"
      by (simp_all add: m1 mem_inv_def backed_def gbyte_def gpa_to_hva_def fun_eq_iff)
    have ent: "ent m1 = ent m0" and page: "page_ok m1 = page_ok m0"
      by (simp_all add: ent_def page_ok_def same fun_eq_iff)
    have page_g: "page_ok m1 g"
      unfolding page by (rule a)
    have zero_g: "ent m1 g k = 0" if "k < 512" for k
      unfolding ent using that by (rule a)
    have "pml4_gpa m1 = g"
      by (simp add: m1)
    note e = empty_root [OF page_g zero_g this]
    have "pte m1 = pte m"
      using True e(2) by (simp add: pte_def fun_eq_iff)
    moreover have "frame (\<lambda>x. False) m m1"
      using a(4) by (simp add: frame_def same)
    moreover have "gbyte m x \<noteq> None \<longrightarrow> table_byte m1 x \<longrightarrow> tbyte m x"
      using a(5) e(3) by (auto simp: table_byte_def)
    moreover have "mem_inv m1" "phys_top (mem_regions m1) \<le> phys_top (mem_regions m) + 4096"
      unfolding same by (rule a)+
    moreover have "pml4 m1 \<noteq> 0" "failures m1 = failures m"
      using a(9,11) by (simp_all add: m1)
    ultimately show ?thesis
      using e(1) by blast
  qed
  then show "mem_inv m1" "pt_ok m1" "pml4 m1 \<noteq> 0" "pte m1 = pte m" "frame (\<lambda>x. False) m m1"
    "gbyte m x \<noteq> None \<Longrightarrow> table_byte m1 x \<Longrightarrow> tbyte m x"
    "phys_top (mem_regions m1) \<le> phys_top (mem_regions m) + 4096" "failures m1 = failures m"
    by blast+
qed

lemma map_gva_root_safe:
  assumes inv: "mem_inv m" and A: "valloc_ok A" and fits: "fits m 1"
    and ret: "map_gva_root H A m = (ok, m1)"
  shows "safe_step 1 m m1" and "\<not> ok \<Longrightarrow> failures m < failures m1"
proof -
  have "safe_step 1 m m1 \<and> (\<not> ok \<longrightarrow> failures m < failures m1)"
  proof (cases "pml4 m = 0")
    case False
    with ret inv show ?thesis by (auto simp: map_gva_root_def safe_step_def)
  next
    case True
    obtain r m0 where al: "vm_mem_alloc H A m 1 = (r, m0)" by fastforce
    have s: "safe_step 1 m m0"
      using safe_alloc [OF inv A fits al] by simp
    show ?thesis
    proof (cases r)
      case None
      have "failures m < failures m0"
        using vm_mem_alloc_failure(5,6) [OF inv A fits al [unfolded None]]
        by (metis le_neq_implies_less zero_neq_one)
      with s True al None ret show ?thesis by (simp add: map_gva_root_def)
    next
      case (Some p)
      with True al ret have "\<exists>h g. m1 = m0\<lparr>pml4 := h, pml4_gpa := g\<rparr>" "ok"
        by (auto simp: map_gva_root_def split: prod.splits)
      with s show ?thesis
        by (auto simp: safe_step_def mem_inv_def backed_def)
    qed
  qed
  then show "safe_step 1 m m1" "\<not> ok \<Longrightarrow> failures m < failures m1" by blast+
qed

text \<open>The room that \<open>map_gva\<close> needs for new tables, within the 52-bit physical space.\<close>

definition table_room :: "('w, 'z) machine_scheme \<Rightarrow> u64 \<Rightarrow> bool" where
  "table_room m n \<longleftrightarrow> phys_top (mem_regions m) + (3 * unat n + 1) * 4096 \<le> 2 ^ 52"

lemma map_gva_safe_total:
  assumes inv: "mem_inv m" and A: "valloc_ok A" and room: "table_room m n"
  shows "\<exists>r m'. map_gva H A u m gva n gpa = Some (r, m') \<and> safe_step (3 * unat n + 1) m m'
    \<and> (r \<noteq> 0 \<longrightarrow> r = -1 \<and> failures m < failures m')"
proof -
  obtain ok m1 where root: "map_gva_root H A m = (ok, m1)" by fastforce
  have fits: "fits m 1"
    using room by (simp add: fits_def table_room_def)
  note rs = map_gva_root_safe [OF inv A fits root]
  show ?thesis
  proof (cases ok)
    case False
    with rs root show ?thesis by (auto simp: map_gva_def Let_def safe_step_def)
  next
    case True
    have "phys_top (mem_regions m1) + 3 * unat n * 4096 < 2 ^ 64"
      using rs(1) room by (simp add: safe_step_def table_room_def)
    then obtain m' where "map_gva_loop H A u m1 (gva AND 0xFFFFFFFFFFFFF000)
        (gpa AND 0xFFFFFFFFFFFFF000) (unat n) = Some m'" "safe_step (3 * unat n) m1 m'"
      using map_gva_loop_safe [OF safe_stepD [OF rs(1)] A] by blast
    with True root safe_step_trans [OF rs(1)] show ?thesis
      by (auto simp: map_gva_def Let_def)
  qed
qed

lemma map_gva_maps:
  assumes inv: "mem_inv m" and pt: "pt_inv m" and A: "valloc_ok A" "valloc_zeroed A"
    and room: "table_room m n"
    and ret: "map_gva H A u m gva n gpa = Some (r, m')" and nofail: "failures m' = failures m"
  shows "r = 0" and "mem_inv m'" and "pt_ok m'" and "pml4 m' \<noteq> 0"
    and "pte m' = map_pages (pte m) (gva AND 0xFFFFFFFFFFFFF000) (gpa AND 0xFFFFFFFFFFFFF000) (unat n)"
    and "frame (tbyte m) m m'"
    and "gbyte m x \<noteq> None \<Longrightarrow> tbyte m' x \<Longrightarrow> tbyte m x"
    and "pml4 m \<noteq> 0 \<Longrightarrow> pml4 m' = pml4 m \<and> pml4_gpa m' = pml4_gpa m"
proof -
  obtain ok m1 where root: "map_gva_root H A m = (ok, m1)" by fastforce
  have fits: "fits m 1" and room1: "phys_top (mem_regions m) + 4096 \<le> 2 ^ 52"
    using room by (simp_all add: fits_def table_room_def)
  note total = map_gva_safe_total [OF inv A(1) room, of H u gva gpa]
  have r: "r = 0"
    using total ret nofail by auto
  then have ok: "ok"
    using ret root by (auto simp: map_gva_def Let_def split: if_splits)
  note ro = map_gva_root_ok [OF inv pt A room1 root [unfolded eqTrueI [OF ok]]]
  have loop: "map_gva_loop H A u m1 (gva AND 0xFFFFFFFFFFFFF000)
      (gpa AND 0xFFFFFFFFFFFFF000) (unat n) = Some m'"
    using ret root ok by (auto simp: map_gva_def Let_def)
  have room2: "phys_top (mem_regions m1) + 3 * unat n * 4096 \<le> 2 ^ 52"
    using ro(7) room by (simp add: table_room_def)
  have "failures m' = failures m1"
    using nofail ro(8) by simp
  note lp = map_gva_loop_maps [OF ro(1,2) A room2 ro(3) loop this, THEN conjunct1]
    map_gva_loop_maps [OF ro(1,2) A room2 ro(3) loop this, THEN conjunct2]
  note g = growsD [OF lp(1)]
  show "r = 0" "mem_inv m'" "pt_ok m'"
    using r g by simp_all
  show root': "pml4 m' \<noteq> 0"
    using g(3) ro(3) by simp
  show "pml4 m' = pml4 m \<and> pml4_gpa m' = pml4_gpa m" if "pml4 m \<noteq> 0"
    using that root g(3,4) by (simp add: map_gva_root_def)
  show "pte m' = map_pages (pte m) (gva AND 0xFFFFFFFFFFFFF000) (gpa AND 0xFFFFFFFFFFFFF000) (unat n)"
    using lp(2) ro(4) by simp
  show "frame (tbyte m) m m'"
  proof (rule frame_trans [of _ _ m1])
    show "frame (tbyte m) m m1"
      using ro(5) by (auto simp: frame_def)
    show "frame (table_byte m1) m1 m'"
      using lp(1) by (simp add: grows_def)
    show "tbyte m x" if "gbyte m x \<noteq> None" "table_byte m1 x" for x
      using ro(6) that .
  qed
  show "tbyte m x" if "gbyte m x \<noteq> None" "tbyte m' x"
  proof -
    have "gbyte m1 x \<noteq> None"
      using ro(5) that(1) by (simp add: frame_def)
    with that(2) lp(1) have "table_byte m1 x"
      by (simp add: grows_def tbyte_def)
    with ro(6) that(1) show ?thesis by blast
  qed
qed

section \<open>gva_to_gpa\<close>

lemma page_or_offset: "page_aligned a \<Longrightarrow> a OR (x AND 0xFFF) = a + (x AND 0xFFF)"
proof -
  assume a: "page_aligned a"
  have mask: "(0xFFF :: u64) = mask 12"
    by (simp add: mask_eq_exp_minus_1)
  have "a AND (x AND mask 12) = (a AND NOT (mask 12)) AND (x AND mask 12)"
    using page_mask_id [OF a] by (simp add: page_mask_numeral)
  also have "\<dots> = 0"
    by (rule bit_word_eqI) (auto simp: bit_simps)
  finally show ?thesis
    unfolding mask by (rule disjunctive_add_eq_or [symmetric])
qed

lemma gva_to_gpa_pte:
  assumes inv: "mem_inv m" and pt: "pt_ok m" and mapped: "pte m (vpage gva) \<noteq> 0"
  shows "gva_to_gpa e0 m gva =
    Some ((pte m (vpage gva) AND 0xFFFFFFFFFF000) OR (gva AND 0xFFF))"
proof -
  have pte: "pte m (vpage gva) = leaf m (table_path gva) (pidx 0 gva)"
    using mapped by (auto simp: pte_def page_path_vpage pidx_vpage split: if_splits)
  then obtain t1 where "descend m (table_path gva) = Some t1"
    using mapped by (auto simp: leaf_def leaf_entry_def descend_def split: option.splits)
  then obtain t3 t2 where
    steps: "ent m (pml4_gpa m) (pidx 3 gva) \<noteq> 0" "child (ent m (pml4_gpa m) (pidx 3 gva)) = t3"
      "ent m t3 (pidx 2 gva) \<noteq> 0" "child (ent m t3 (pidx 2 gva)) = t2"
      "ent m t2 (pidx 1 gva) \<noteq> 0" "child (ent m t2 (pidx 1 gva)) = t1"
    by (auto simp: descend_def table_path_def split: if_splits)
  have d: "descend m [] = Some (pml4_gpa m)" "descend m [pidx 3 gva] = Some t3"
    "descend m [pidx 3 gva, pidx 2 gva] = Some t2" "descend m [pidx 3 gva, pidx 2 gva, pidx 1 gva] = Some t1"
    using steps by (simp_all add: descend_def)
  have p: "page_ok m (pml4_gpa m)" "page_ok m t3" "page_ok m t2" "page_ok m t1"
    using descend_page [OF pt _ d(1)] descend_page [OF pt _ d(2)] descend_page [OF pt _ d(3)]
      descend_page [OF pt _ d(4)] by (simp_all add: is_path_def)
  have c: "e AND 0xFFFFFFFFFF000 = t" if "child e = t" "page_ok m t" for e t
    using phys_mask_child [of e] that by (simp add: page_ok_def)
  have l: "leaf m (table_path gva) (pidx 0 gva) = ent m t1 (pidx 0 gva)"
    using d(4) by (simp add: leaf_def leaf_entry_def descend_def table_path_def)
  show ?thesis
    using read_entry [OF inv p(1)] read_entry [OF inv p(2)] read_entry [OF inv p(3)]
      read_entry [OF inv p(4)] c [OF steps(2) p(2)] c [OF steps(4) p(3)] c [OF steps(6) p(4)]
    unfolding gva_to_gpa_def Let_def decode_gva_index decode_gva_offset entry_addr_def [symmetric] pte l
    by simp
qed

end
