(* ===== verification/VirtInit.thy ===== *)
theory VirtInit
  imports VirtMem
begin

text \<open>
  What clients do with the page tables: \<open>gva_to_gpa\<close> after a \<open>map_gva\<close>, the check
  \<open>vm_mem_verify\<close>, and the state that \<open>vm_mem_init\<close> leaves: the first pages mapped to
  themselves and filled with zeros. The last section shows what translation does with an
  address that no call ever mapped.
\<close>

section \<open>Addresses of a mapped range\<close>

lemma page_split:
  assumes "page_aligned a" "unat a + i < 2 ^ 64"
  shows "vpage (a + of_nat i) = vpage (a + of_nat (4096 * (i div 4096)))"
    and "(a + of_nat i) AND 0xFFF = of_nat (i mod 4096)"
proof -
  obtain b where b: "unat a = 4096 * b"
    using assms(1) by (auto simp: page_aligned_def)
  have u: "unat (a + of_nat i) = 4096 * b + i"
    using assms(2) b by (subst unat_add_of_nat) simp_all
  have "4096 * (i div 4096) \<le> i" by simp
  then have u': "unat (a + of_nat (4096 * (i div 4096))) = 4096 * b + 4096 * (i div 4096)"
    using assms(2) b by (subst unat_add_of_nat) simp_all
  show "vpage (a + of_nat i) = vpage (a + of_nat (4096 * (i div 4096)))"
    unfolding vpage_def u u' by simp
  have "unat ((a + of_nat i) AND 0xFFF) = i mod 4096"
    unfolding unat_low_12 u by simp
  moreover have "unat (of_nat (i mod 4096) :: u64) = i mod 4096"
    by (rule unat_of_nat_small) (rule less_trans [of _ 4096], simp_all)
  ultimately show "(a + of_nat i) AND 0xFFF = of_nat (i mod 4096)"
    by (intro word_eq_by_unat) simp
qed

section \<open>Translation as a page map\<close>

text \<open>
  The contract between the page tables and what relies on them: in a good state, translation
  reads the page map. What a range that \<open>map_pages\<close> entered translates to, and that other
  pages keep their translation, follow from it alone.
\<close>

locale address_space =
  fixes ok :: "'s \<Rightarrow> bool"
    and pages :: "'s \<Rightarrow> nat \<Rightarrow> u64"
    and translate :: "'s \<Rightarrow> u64 \<Rightarrow> u64 option"
  assumes walk: "ok s \<Longrightarrow> pages s (vpage x) \<noteq> 0 \<Longrightarrow>
    translate s x = Some ((pages s (vpage x) AND 0xFFFFFFFFFF000) OR (x AND 0xFFF))"
begin

lemma link:
  assumes "ok s" "pages s (vpage x) = link_to p" "page_aligned p" "unat p < 2 ^ 52"
  shows "translate s x = Some (p + (x AND 0xFFF))"
proof -
  have "pages s (vpage x) \<noteq> 0"
    using assms(2) by (simp add: link_to_nonzero)
  from walk [OF assms(1) this] assms(2-4) show ?thesis
    by (simp only: phys_mask_link page_or_offset)
qed

lemma same_page:
  assumes "ok s" "ok s'" "pages s' (vpage x) = pages s (vpage x)" "pages s (vpage x) \<noteq> 0"
  shows "translate s' x = translate s x"
  using walk [OF assms(1,4)] walk [OF assms(2)] assms(3,4) by simp

lemma identity:
  assumes s: "ok s" and v: "v < 2 ^ 36" and page: "pages s v = link_to (of_nat (4096 * v))" and x: "unat x div 4096 = v"
  shows "translate s x = Some x"
proof -
  define p :: u64 where "p = of_nat (4096 * v)"
  have p: "unat p = 4096 * v"
    using v unfolding p_def by (intro unat_of_nat_small) simp
  have "vpage x = v"
    using x v by (simp add: vpage_def)
  then have "translate s x = Some (p + (x AND 0xFFF))"
    using s page p v by (intro link) (simp_all add: p_def page_aligned_def)
  also have "p + (x AND 0xFFF) = x"
  proof (rule word_eq_by_unat)
    have sum: "4096 * v + unat x mod 4096 = unat x"
      using x by (metis mult_div_mod_eq)
    then have "unat (p + (x AND 0xFFF)) = unat p + unat (x AND 0xFFF)"
      using unsigned_less [of x, where ?'a = nat] p by (intro unat_add_small) (simp add: unat_low_12)
    then show "unat (p + (x AND 0xFFF)) = unat x"
      using sum by (simp add: p unat_low_12)
  qed
  finally show ?thesis .
qed

lemma mapped_range:
  assumes s: "ok s" and al: "page_aligned a" "page_aligned p"
    and pages: "pages s = map_pages f a p n"
    and virt: "unat a + 4096 * n \<le> 2 ^ 48" and phys: "unat p + 4096 * n \<le> 2 ^ 52"
    and i: "i < 4096 * n"
  shows "translate s (a + of_nat i) = Some (p + of_nat i)"
proof -
  let ?k = "i div 4096"
  have k: "?k < n" "4096 * ?k \<le> i"
    using i by (auto simp: less_mult_imp_div_less mult.commute)
  have pk: "unat (p + of_nat (4096 * ?k)) = unat p + 4096 * ?k"
    using phys i k(2) by (intro unat_add_of_nat) simp
  have aligned: "page_aligned (p + of_nat (4096 * ?k))"
    using al(2) unfolding page_aligned_def pk by simp
  have "unat a + i < 2 ^ 64"
    using virt i by simp
  note sp = page_split [OF al(1) this]
  have "pages s (vpage (a + of_nat i)) = link_to (p + of_nat (4096 * ?k))"
    unfolding pages sp(1) using al virt k(1) by (rule map_pages_at)
  moreover have "unat (p + of_nat (4096 * ?k)) < 2 ^ 52"
    using pk phys i k(2) by simp
  ultimately have "translate s (a + of_nat i) = Some (p + of_nat (4096 * ?k) + ((a + of_nat i) AND 0xFFF))"
    using s aligned by (intro link)
  also have "p + of_nat (4096 * ?k) + ((a + of_nat i) AND 0xFFF) = p + of_nat (4096 * ?k + i mod 4096)"
    unfolding sp(2) by (simp only: of_nat_add add.assoc)
  finally show ?thesis by simp
qed

lemma kept:
  assumes "ok s" "ok s'" and pages: "pages s' = map_pages (pages s) a p n" and mapped: "pages s (vpage x) \<noteq> 0"
    and out: "\<And>i. i < n \<Longrightarrow> vpage x \<noteq> vpage (a + of_nat (4096 * i))"
  shows "translate s' x = translate s x"
proof (rule same_page [OF assms(1,2) _ mapped])
  show "pages s' (vpage x) = pages s (vpage x)"
    unfolding pages using out by (rule map_pages_other)
qed

end

interpretation mmu: address_space "\<lambda>m. mem_inv m \<and> pt_ok m" pte "gva_to_gpa e" for e
  by unfold_locales (simp add: gva_to_gpa_pte)

section \<open>vm_mem_verify\<close>

lemma vm_mem_verify_loop_ok:
  "(\<And>i. i < n \<Longrightarrow> \<exists>g. (\<forall>e0. gva_to_gpa e0 m (gva + of_nat i) = Some g) \<and> gpa_to_hva m g \<noteq> 0) \<Longrightarrow>
     vm_mem_verify_loop u m gva n = Some 0"
proof (induction n arbitrary: gva)
  case 0
  then show ?case by simp
next
  case (Suc n)
  have "vm_mem_verify_loop u m (gva + 1) n = Some 0"
    using Suc.prems [of "Suc _"] by (intro Suc.IH) (simp add: ac_simps)
  with Suc.prems [of 0] show ?case by auto
qed

lemma vm_mem_verify_loop_bad:
  assumes "i < n" and "\<And>j. j < n \<Longrightarrow> \<exists>g. \<forall>e0. gva_to_gpa e0 m (gva + of_nat j) = Some g"
    and "\<And>e0 g. gva_to_gpa e0 m (gva + of_nat i) = Some g \<Longrightarrow> gpa_to_hva m g = 0"
  shows "vm_mem_verify_loop u m gva n = Some (-1)"
  using assms
proof (induction n arbitrary: gva i)
  case 0
  then show ?case by simp
next
  case (Suc n)
  obtain g where g: "gva_to_gpa e0 m gva = Some g" for e0
    using Suc.prems(2) [of 0] by auto
  show ?case
  proof (cases "gpa_to_hva m g = 0")
    case True
    with g show ?thesis by simp
  next
    case False
    with g Suc.prems(3) obtain j where j: "i = Suc j"
      by (cases i) auto
    have "vm_mem_verify_loop u m (gva + 1) n = Some (-1)"
      using Suc.prems(1) Suc.prems(2) [of "Suc _"] Suc.prems(3) j
      by (intro Suc.IH [of j]) (simp_all add: ac_simps)
    with g False show ?thesis by simp
  qed
qed

section \<open>vm_mem_init\<close>

text \<open>Room for the pages themselves and for the tables that map them.\<close>

definition init_room :: "u32 \<Rightarrow> bool" where
  "init_room n \<longleftrightarrow> 0 < n \<and> (4 * unat n + 1) * 4096 \<le> (2 :: nat) ^ 48"

lemma vm_mem_init_run:
  assumes empty: "mem_inv m" "mem_regions m = []" "pml4 m = 0" and A: "valloc_ok A" "valloc_zeroed A"
    and n: "init_room n"
    and ret: "vm_mem_init H A u m n = Some (r, m')" and nofail: "failures m' = failures m"
  obtains m1 hva where "vm_mem_alloc H A m (ucast n) = (Some (hva, 0), m1)" "r = 0"
    "map_gva H A u m1 0 (ucast n) 0 = Some (0, m')" "failures m1 = failures m" "failures m' = failures m1"
    "table_room m1 (ucast n)" "pml4 m1 = 0" "mem_inv m1"
    "\<And>i. i < 4096 * unat n \<Longrightarrow> gbyte m1 (of_nat i) = Some 0" "phys_top (mem_regions m1) \<le> 4096 * unat n"
proof -
  define k :: u64 where "k = ucast n"
  have k: "unat k = unat n"
    unfolding k_def using unsigned_less [of n, where ?'a = nat] by (intro unat_ucast_small) simp
  have fits: "fits m k"
    using n empty(2) by (simp add: fits_def phys_top_def k init_room_def)
  obtain x m1 where al: "vm_mem_alloc H A m k = (x, m1)" by fastforce
  have k0: "k \<noteq> 0"
    using n k by (auto simp: init_room_def word_less_nat_alt)
  have "x \<noteq> None"
  proof
    assume x: "x = None"
    with al ret have "m' = m1" by (simp add: vm_mem_init_def k_def)
    with vm_mem_alloc_failure(5) [OF empty(1) A(1) fits al [unfolded x]] nofail k0 show False
      by simp
  qed
  then obtain hva g where x: "x = Some (hva, g)" by auto
  note a = vm_mem_alloc_success [OF empty(1) A(1) fits al [unfolded x]]
  have g: "g = 0"
    using a(3) empty(2) by (simp add: phys_top_def unat_eq_0)
  have top: "phys_top (mem_regions m1) \<le> 4096 * unat n"
    using phys_top_insert [OF mem_inv_wf [OF empty(1)] mem_inv_wf [OF a(1)] a(5)] empty(2)
    by (simp add: r_hi_def r_lo_def r_size_def g k phys_top_def)
  have room: "table_room m1 k"
    using top n by (simp add: table_room_def k init_room_def)
  have zero: "gbyte m1 (of_nat i) = Some 0" if "i < 4096 * unat n" for i
  proof -
    have "i < 2 ^ 64"
      using that n by (simp add: init_room_def)
    then have "in_block g (unat k * 4096) (of_nat i)"
      using that by (simp add: in_block_def g k unat_of_nat_small)
    with a(6) A(2) show ?thesis
      by (simp add: valloc_zeroed_def)
  qed
  obtain r' m'' where map: "map_gva H A u m1 0 k 0 = Some (r', m'')"
    using map_gva_safe_total [OF a(1) A(1) room] by blast
  have m': "m' = m''"
    using ret map al x g by (auto simp: vm_mem_init_def k_def split: if_splits)
  have f: "failures m' = failures m1"
    using nofail a(12) by simp
  have r': "r' = 0"
    using map_gva_safe_total [OF a(1) A(1) room, of H u 0 0] map f m' by auto
  with ret map al x g have "r = 0"
    by (simp add: vm_mem_init_def k_def)
  with that al x g map f r' m' a room zero top show thesis
    unfolding k_def by (metis empty(3))
qed

lemma vm_mem_init_ok:
  assumes empty: "mem_inv m" "mem_regions m = []" "pml4 m = 0" and A: "valloc_ok A" "valloc_zeroed A"
    and n: "init_room n"
    and ret: "vm_mem_init H A u m n = Some (r, m')" and nofail: "failures m' = failures m"
  shows "r = 0" and "mem_inv m'" and "pt_ok m'" and "pml4 m' \<noteq> 0"
    and "i < 4096 * unat n \<Longrightarrow> gva_to_gpa e0 m' (of_nat i) = Some (of_nat i)"
    and "i < 4096 * unat n \<Longrightarrow> gbyte m' (of_nat i) = Some 0"
    and "i < 4096 * unat n \<Longrightarrow> \<not> tbyte m' (of_nat i)"
    and "v < unat n \<Longrightarrow> pte m' v = link_to (of_nat (4096 * v))"
    and "phys_top (mem_regions m') \<le> (4 * unat n + 1) * 4096"
proof -
  obtain m1 hva where al: "vm_mem_alloc H A m (ucast n) = (Some (hva, 0), m1)" and r: "r = 0"
    and map: "map_gva H A u m1 0 (ucast n) 0 = Some (0, m')" and f: "failures m' = failures m1"
    and room: "table_room m1 (ucast n)" and p: "pml4 m1 = 0" and inv1: "mem_inv m1"
    and zero: "\<And>i. i < 4096 * unat n \<Longrightarrow> gbyte m1 (of_nat i) = Some 0"
    and top: "phys_top (mem_regions m1) \<le> 4096 * unat n"
    using vm_mem_init_run [OF assms] by metis
  have pt1: "pt_inv m1"
    using p by (simp add: pt_inv_def)
  note mg = map_gva_maps [OF inv1 pt1 A room map f]
  have k: "unat (ucast n :: u64) = unat n"
    using unsigned_less [of n, where ?'a = nat] by (intro unat_ucast_small) simp
  show "r = 0" "mem_inv m'" "pt_ok m'" "pml4 m' \<noteq> 0"
    using r mg by simp_all
  have "safe_step (3 * unat n + 1) m1 m'"
    using map_gva_safe_total [OF inv1 A(1) room, of H u 0 0] map k by auto
  then show "phys_top (mem_regions m') \<le> (4 * unat n + 1) * 4096"
    using top by (simp add: safe_step_def)
  have none: "\<not> tbyte m1 x" for x
    using p by (simp add: tbyte_def)
  have pte: "pte m' = map_pages (pte m1) 0 0 (unat n)"
    using mg(5) k by simp
  have al0: "page_aligned 0"
    by (simp add: page_aligned_def)
  show "gva_to_gpa e0 m' (of_nat i) = Some (of_nat i)" if "i < 4096 * unat n"
    using mmu.mapped_range [OF conjI [OF mg(2,3)] al0 al0 pte, of i e0] that n
    by (simp add: init_room_def)
  show "pte m' v = link_to (of_nat (4096 * v))" if "v < unat n"
  proof -
    have small: "4096 * unat n \<le> 2 ^ 48"
      using n by (simp add: init_room_def)
    have "vpage (0 + of_nat (4096 * v)) = v"
      using that small al0 by (subst vpage_add) simp_all
    then show ?thesis
      using map_pages_at [OF al0 al0 _ that, of "pte m1"] small unfolding pte by simp
  qed
  show "gbyte m' (of_nat i) = Some 0" if "i < 4096 * unat n"
    using mg(6) zero [OF that] none by (simp add: frame_def)
  show "\<not> tbyte m' (of_nat i)" if "i < 4096 * unat n"
    using mg(7) zero [OF that] none by (metis option.distinct(1))
qed

section \<open>Addresses that were never mapped\<close>

text \<open>
  \<open>gva_to_gpa\<close> looks at no PRESENT bit: below an empty entry it goes on with page 0. When
  page 0 holds zeros, the address translates to its own offset in page 0.
\<close>

lemma read_zero:
  assumes inv: "mem_inv m" and zero: "\<And>i. i < 4096 \<Longrightarrow> gbyte m (of_nat i) = Some 0" and k: "k < 512"
  shows "read_u64 m (entry_addr 0 k) e0 = Some 0"
proof -
  have z: "gbyte m (entry_addr 0 k + of_nat i) = Some 0" if "i < 8" for i
    using zero [of "8 * k + i"] k that by (simp add: entry_addr_def)
  then have "avail (gbyte m) (entry_addr 0 k) 8"
    by (simp add: avail_def)
  then have "vm_mem_read m (entry_addr 0 k) 8 = Some (peek (gbyte m) (entry_addr 0 k) 8)"
    using inv by (intro gm.read_avail) (simp_all add: INT_MAX_def)
  moreover have "peek (gbyte m) (entry_addr 0 k) 8 = replicate 8 0"
    using z by (intro nth_equalityI) (simp_all add: peek_def)
  moreover have "word64 (replicate 8 0) = 0"
    by (simp add: word64_def numeral_eq_Suc)
  ultimately show ?thesis
    by (simp add: read_u64_def codec64.overlay_full)
qed

lemma gva_to_gpa_unmapped:
  assumes inv: "mem_inv m" and pt: "pt_ok m" and empty: "ent m (pml4_gpa m) (pidx 3 gva) = 0"
    and zero: "\<And>i. i < 4096 \<Longrightarrow> gbyte m (of_nat i) = Some 0"
  shows "gva_to_gpa e0 m gva = Some (gva AND 0xFFF)"
proof -
  have "descend m [] = Some (pml4_gpa m)"
    by (simp add: descend_def)
  then have "page_ok m (pml4_gpa m)"
    by (intro descend_page [OF pt, of "[]"]) (simp_all add: is_path_def)
  then have "read_u64 m (entry_addr (pml4_gpa m) (pidx 3 gva)) e0 = Some 0"
    using read_entry [OF inv] empty by simp
  then show ?thesis
    using read_zero [OF inv zero]
    unfolding gva_to_gpa_def Let_def decode_gva_index decode_gva_offset entry_addr_def [symmetric]
    by simp
qed

lemma pte_unmapped:
  assumes "ent m (pml4_gpa m) (pidx 3 gva) = 0"
  shows "pte m (vpage gva) = 0"
proof -
  have "walk (ent m) (pml4_gpa m) (table_path gva) = None"
    using assms by (simp add: table_path_def)
  then show ?thesis
    by (simp add: pte_def page_path_vpage leaf_def leaf_entry_def)
qed

section \<open>Reads depend on memory only\<close>

lemma vm_mem_read_cong:
  assumes "mem_regions m = mem_regions m'" "heap m = heap m'"
  shows "vm_mem_read m a n = vm_mem_read m' a n"
proof -
  have "vm_mem_read_loop m a k n = vm_mem_read_loop m' a k n" for k
    by (induction n arbitrary: a k) (simp_all add: gpa_to_hva_def assms Let_def cong: if_cong split: option.splits)
  then show ?thesis by (simp add: vm_mem_read_def)
qed

lemma gva_to_gpa_cong:
  assumes "mem_regions m = mem_regions m'" "heap m = heap m'" "pml4_gpa m = pml4_gpa m'"
  shows "gva_to_gpa e0 m x = gva_to_gpa e0 m' x"
proof -
  have "read_u64 m a old = read_u64 m' a old" for a old
    unfolding read_u64_def using vm_mem_read_cong [OF assms(1,2)] by simp
  then show ?thesis
    by (simp only: gva_to_gpa_def assms(3))
qed

end
