(* ===== verification/DemoHost.thy ===== *)
theory DemoHost
  imports VirtInit
begin

text \<open>
  A concrete instance of what the development takes as parameters, used to show that the
  hypotheses of its theorems can hold together: an allocator that hands out zeroed blocks
  of at most one megabyte at increasing addresses, and a hypervisor that is a register
  file with a script of the exits that running the guest produces.
\<close>

section \<open>The allocator\<close>

definition demo_host :: host_ops where
  "demo_host = \<lparr>
     valloc_at = (\<lambda>n h sz. let p = of_nat (Suc n * 0x100000) in
       if n < 2 ^ 40 \<and> unat sz \<le> 0x100000 \<and> (\<forall>i < unat sz. h (p + of_nat i) = None) then p else 0),
     valloc_fill = (\<lambda>n a. 0),
     malloc_null = (\<lambda>n. False)\<rparr>"

lemma demo_block: "n < 2 ^ 40 \<Longrightarrow> unat (of_nat (Suc n * 0x100000) :: u64) = Suc n * 0x100000"
  by (intro unat_of_nat_small) simp

lemma demo_valloc_ok: "valloc_ok demo_host"
  unfolding valloc_ok_def
proof (intro allI impI)
  fix n h sz
  assume nz: "valloc_at demo_host n h sz \<noteq> 0"
  let ?p = "of_nat (Suc n * 0x100000) :: u64"
  have n: "n < 2 ^ 40" "unat sz \<le> 0x100000" "\<forall>i < unat sz. h (?p + of_nat i) = None"
    and p: "valloc_at demo_host n h sz = ?p"
    using nz by (auto simp: demo_host_def Let_def split: if_splits)
  have "4096 dvd Suc n * 0x100000"
    by (rule dvd_mult) simp
  moreover have "Suc n * 0x100000 + unat sz < 2 ^ 64"
    using n(1,2) by simp
  ultimately show "page_aligned (valloc_at demo_host n h sz)
      \<and> unat (valloc_at demo_host n h sz) + unat sz < 2 ^ 64
      \<and> (\<forall>i < unat sz. h (valloc_at demo_host n h sz + of_nat i) = None)"
    unfolding p page_aligned_def demo_block [OF n(1)] using n(3) by blast
qed

lemma demo_fill [simp]: "valloc_fill demo_host n a = 0"
  by (simp add: demo_host_def)

lemma demo_malloc [simp]: "malloc_null demo_host n = False"
  by (simp add: demo_host_def)

lemma demo_valloc_at:
  "n < 2 ^ 40 \<Longrightarrow> unat sz \<le> 0x100000 \<Longrightarrow>
     \<forall>i < unat sz. h (of_nat (Suc n * 0x100000) + of_nat i) = None \<Longrightarrow>
     valloc_at demo_host n h sz = of_nat (Suc n * 0x100000)"
  by (simp add: demo_host_def Let_def del: of_nat_Suc of_nat_mult)

lemma demo_valloc_zeroed: "valloc_zeroed demo_host"
  by (simp add: valloc_zeroed_def)

section \<open>The hypervisor\<close>

record demo_exit =
  ex_reason :: u64
  ex_qual :: u64
  ex_len :: u64
  ex_regs :: "(hv_x86_reg \<times> u64) list"

record demo_world =
  dw_regs :: "hv_x86_reg \<Rightarrow> u64"
  dw_vmcs :: "vmcs_field \<Rightarrow> u64"
  dw_script :: "demo_exit list"

definition demo_run :: "demo_world \<Rightarrow> (u64 \<rightharpoonup> u8) \<Rightarrow> u32 \<times> demo_world \<times> (u64 \<rightharpoonup> u8)" where
  "demo_run w h = (case dw_script w of
      [] \<Rightarrow> (1, w, h)
    | e # es \<Rightarrow> (0, w\<lparr>dw_script := es,
        dw_regs := (\<lambda>r. case map_of (ex_regs e) r of None \<Rightarrow> dw_regs w r | Some v \<Rightarrow> v),
        dw_vmcs := (dw_vmcs w)(VMCS_RO_EXIT_REASON := ex_reason e,
          VMCS_RO_EXIT_QUALIFIC := ex_qual e, VMCS_RO_VMEXIT_INSTR_LEN := ex_len e)\<rparr>, h))"

fun demo_reason_code :: "vmx_reason \<Rightarrow> u64" where
  "demo_reason_code VMX_REASON_EXC_NMI = 0"
| "demo_reason_code VMX_REASON_IRQ = 1"
| "demo_reason_code VMX_REASON_CPUID = 10"
| "demo_reason_code VMX_REASON_HLT = 12"
| "demo_reason_code VMX_REASON_VMCALL = 18"
| "demo_reason_code VMX_REASON_MOV_CR = 28"
| "demo_reason_code VMX_REASON_RDMSR = 31"
| "demo_reason_code VMX_REASON_WRMSR = 32"
| "demo_reason_code VMX_REASON_EPT_VIOLATION = 48"

definition demo_hv :: "demo_world hv_ops" where
  "demo_hv = \<lparr>
     vmx_reason_code = demo_reason_code,
     HV_MEMORY_READ = 1, HV_MEMORY_WRITE = 2, HV_MEMORY_EXEC = 4,
     hv_vm_create = (\<lambda>w. (0, w)), hv_vm_destroy = (\<lambda>w. (0, w)),
     hv_vcpu_create = (\<lambda>w. (0, w)), hv_vcpu_destroy = (\<lambda>w. (0, w)),
     hv_vm_map = (\<lambda>w hva gpa sz flags. (0, w)), hv_vm_unmap = (\<lambda>w gpa sz. (0, w)),
     hv_vcpu_read_register = (\<lambda>w r old. (0, dw_regs w r)),
     hv_vcpu_write_register = (\<lambda>w r v. (0, w\<lparr>dw_regs := (dw_regs w)(r := v)\<rparr>)),
     hv_vmx_vcpu_read_vmcs = (\<lambda>w f old. (0, dw_vmcs w f)),
     hv_vmx_vcpu_write_vmcs = (\<lambda>w f v. (0, w\<lparr>dw_vmcs := (dw_vmcs w)(f := v)\<rparr>)),
     hv_vcpu_enable_native_msr = (\<lambda>w msr e. (0, w)),
     hv_vcpu_run = demo_run\<rparr>"

definition demo_world0 :: demo_world where
  "demo_world0 = \<lparr>dw_regs = (\<lambda>r. 0), dw_vmcs = (\<lambda>f. 0), dw_script = []\<rparr>"

lemma demo_vm_map [simp]: "hv_vm_map demo_hv w hva gpa sz flags = (0, w)"
  by (simp add: demo_hv_def)

section \<open>No host call fails\<close>

text \<open>Everything allocated lies below the next block, or high up, where files are mapped.\<close>

definition demo_high :: "u64 \<Rightarrow> bool" where
  "demo_high a \<longleftrightarrow> 2 ^ 62 \<le> unat a"

definition demo_fresh :: "(demo_world, 'z) machine_scheme \<Rightarrow> bool" where
  "demo_fresh m \<longleftrightarrow> (\<forall>a. heap m a \<noteq> None \<longrightarrow> unat a < Suc (calls m) * 0x100000 \<or> demo_high a)"

definition demo_machine :: "demo_world machine" where
  "demo_machine = \<lparr>mem_regions = [], pml4 = 0, pml4_gpa = 0, heap = (\<lambda>a. None),
     world = demo_world0, calls = 0, failures = 0\<rparr>"

lemma demo_machine_inv: "mem_inv demo_machine" "pt_inv demo_machine" "demo_fresh demo_machine"
  by (simp_all add: demo_machine_def mem_inv_def backed_def pt_inv_def demo_fresh_def)

lemma demo_valloc:
  assumes "demo_fresh m" "calls m < 2 ^ 40" "unat sz \<le> 0x100000"
  shows "valloc demo_host m sz = (of_nat (Suc (calls m) * 0x100000),
    m\<lparr>calls := Suc (calls m), heap := (\<lambda>a. if in_block (of_nat (Suc (calls m) * 0x100000)) (unat sz) a
      then Some 0 else heap m a)\<rparr>)"
proof -
  let ?p = "of_nat (Suc (calls m) * 0x100000) :: u64"
  have p: "unat ?p = Suc (calls m) * 0x100000"
    using assms(2) by (rule demo_block)
  have free: "heap m (?p + of_nat i) = None" if "i < unat sz" for i
  proof (rule ccontr)
    assume "heap m (?p + of_nat i) \<noteq> None"
    moreover have "unat (?p + of_nat i) = Suc (calls m) * 0x100000 + i"
      using p assms(2,3) that by (subst unat_add_of_nat) simp_all
    moreover from this have "\<not> demo_high (?p + of_nat i)"
      using assms(2,3) that by (simp add: demo_high_def)
    ultimately show False
      using assms(1) unfolding demo_fresh_def by (metis not_add_less1)
  qed
  have "?p \<noteq> 0"
    using p by (metis mult_eq_0_iff nat.simps(3) unat_0 zero_neq_numeral)
  moreover have "valloc_at demo_host (calls m) (heap m) sz = ?p"
    using assms(2,3) free by (intro demo_valloc_at) blast+
  ultimately show ?thesis
    by (simp add: valloc_def Let_def del: of_nat_Suc of_nat_mult cong del: if_weak_cong)
qed

lemma demo_alloc:
  assumes inv: "mem_inv m" and fr: "demo_fresh m" and c: "calls m < 2 ^ 40"
    and n: "0 < n" "unat n \<le> 256" and fits: "fits m n"
    and ret: "vm_mem_alloc demo_hv demo_host m n = (r, m')"
  shows "r \<noteq> None" and "demo_fresh m'" and "calls m' = calls m + 2" and "failures m' = failures m"
    and "demo_high a \<Longrightarrow> heap m' a = heap m a"
proof -
  have sz: "unat (n * CONF_PAGE_SIZE) = unat n * 4096"
    using n by (intro unat_mul_page) simp
  let ?p = "of_nat (Suc (calls m) * 0x100000) :: u64"
  obtain m1 where v: "valloc demo_host m (n * CONF_PAGE_SIZE) = (?p, m1)"
    and m1: "m1 = m\<lparr>calls := Suc (calls m), heap := (\<lambda>a. if in_block ?p (unat n * 4096) a
      then Some 0 else heap m a)\<rparr>"
    using demo_valloc [OF fr c, of "n * CONF_PAGE_SIZE"] n sz by simp
  have p: "unat ?p = Suc (calls m) * 0x100000"
    using c by (rule demo_block)
  then have nz: "?p \<noteq> 0"
    by (metis mult_eq_0_iff nat.simps(3) unat_0 zero_neq_numeral)
  obtain g where g: "find_free_mem_region (mem_regions m) n = Some g"
    using n(1) by (auto simp: find_free_mem_region_def word_gt_0 word_less_1)
  note ff = find_free_mem_region_Some [OF inv g]
  have n4: "unat n * 4096 < 2 ^ 64"
    using n by simp
  let ?new = "\<lparr>r_gpa = g, r_npages = n, r_hva = ?p\<rparr>"
  have "region_ok ?new"
    using ff [OF n4] fits n nz p c
    by (simp add: region_ok_def fits_def r_hi_def r_lo_def r_size_def h_lo_def unat_gt_0
        del: of_nat_Suc of_nat_mult)
  then have "insert_region (mem_regions m) ?new \<noteq> None"
    using ff(4) [OF n4] by (intro free_range_insert mem_inv_wf [OF inv]) (simp_all add: r_lo_def r_size_def)
  then obtain rs where rs: "insert_region (mem_regions m) ?new = Some rs" by blast
  have "map_gpa demo_hv demo_host m1 g n ?p =
      (0, m1\<lparr>world := world m1, calls := Suc (calls m1), mem_regions := rs\<rparr>)"
    using rs ff(2) [OF n4] n(1)
    by (simp add: map_gpa_def m1 page_mask_id Let_def word_less_1
        word_gt_0 del: of_nat_Suc of_nat_mult)
  with g v nz ret have r: "r = Some (?p, g)"
    and m': "m' = m1\<lparr>world := world m1, calls := Suc (calls m1), mem_regions := rs\<rparr>"
    by (simp_all add: vm_mem_alloc_def del: of_nat_Suc of_nat_mult)
  show "r \<noteq> None" "calls m' = calls m + 2" "failures m' = failures m"
    using r m' m1 by simp_all
  have blk: "unat a < Suc (calls m + 1) * 0x100000" if "in_block ?p (unat n * 4096) a" for a
    using that p c n(2) in_block_iff [of ?p "unat n * 4096" a] by simp
  show "heap m' a = heap m a" if "demo_high a"
  proof -
    have "\<not> in_block ?p (unat n * 4096) a"
      using blk [of a] that c by (auto simp: demo_high_def)
    then show ?thesis
      by (simp add: m' m1 del: of_nat_Suc of_nat_mult)
  qed
  have "unat a < Suc (calls m + 2) * 0x100000" if "in_block ?p (unat n * 4096) a" for a
    using blk [OF that] by simp
  moreover have "unat a < Suc (calls m + 2) * 0x100000 \<or> demo_high a" if "heap m a \<noteq> None" for a
  proof -
    have "unat a < Suc (calls m) * 0x100000 \<or> demo_high a"
      using fr that unfolding demo_fresh_def by blast
    then show ?thesis by auto
  qed
  ultimately show "demo_fresh m'"
    unfolding demo_fresh_def m' m1 by (auto simp del: of_nat_Suc of_nat_mult)
qed

text \<open>What a step with at most \<open>k\<close> new pages keeps.\<close>

definition demo_step :: "nat \<Rightarrow> (demo_world, 'z) machine_scheme \<Rightarrow> (demo_world, 'z) machine_scheme \<Rightarrow> bool" where
  "demo_step k m m' \<longleftrightarrow> demo_fresh m' \<and> calls m' \<le> calls m + 2 * k \<and> failures m' = failures m
     \<and> (\<forall>a. demo_high a \<longrightarrow> heap m' a = None \<longleftrightarrow> heap m a = None)"

lemma demo_step_trans: "demo_step j m m1 \<Longrightarrow> demo_step k m1 m2 \<Longrightarrow> demo_step (j + k) m m2"
  by (simp add: demo_step_def)

lemma demo_stepD: "demo_step k m m' \<Longrightarrow> demo_fresh m'"
  by (simp add: demo_step_def)

lemma demo_step_write:
  assumes "mem_inv m" "demo_fresh m" "vm_mem_write m a (bytes64 e) = Some (n, m')"
  shows "demo_step 0 m m'"
proof -
  have "length (bytes64 e) \<le> INT_MAX"
    by (simp add: codec64.length_enc INT_MAX_def)
  then obtain h where "m' = m\<lparr>heap := h\<rparr>" "dom h = dom (heap m)"
    using vm_mem_write_frame [OF assms(1) _ assms(3)] by blast
  moreover from this have "heap m' a = None \<longleftrightarrow> heap m a = None" for a
    by (simp add: set_eq_iff) (metis domIff)
  ultimately show ?thesis
    using assms(2) by (simp add: demo_step_def demo_fresh_def)
qed

lemma demo_step_alloc:
  assumes "mem_inv m" "demo_fresh m" "calls m < 2 ^ 40" "0 < n" "unat n \<le> 256" "fits m n"
    and "vm_mem_alloc demo_hv demo_host m n = (r, m')"
  shows "demo_step 1 m m' \<and> r \<noteq> None"
  using demo_alloc [OF assms] by (simp add: demo_step_def)

lemma demo_next_table:
  assumes inv: "mem_inv m" and fr: "demo_fresh m" and c: "calls m < 2 ^ 40" and fits: "fits m 1"
    and ret: "next_table demo_hv demo_host e0 t0 m a = Some (t, m')"
  shows "demo_step 1 m m'"
proof -
  obtain e where e: "read_u64 m a e0 = Some e"
    using read_u64_total [OF inv] by blast
  show ?thesis
  proof (cases "e = 0")
    case True
    obtain r m1 where al: "vm_mem_alloc demo_hv demo_host m 1 = (r, m1)" by fastforce
    have s: "demo_step 1 m m1"
      using demo_step_alloc [OF inv fr c _ _ fits al] by simp
    have inv1: "mem_inv m1"
      using safe_stepD [OF safe_alloc [OF inv demo_valloc_ok fits al]] .
    obtain n x where "vm_mem_write m1 a (bytes64 x) = Some (n, m')"
      using ret e True al by (auto simp: next_table_def Let_def split: Option.bind_splits option.splits prod.splits)
    with demo_step_trans [OF s demo_step_write [OF inv1 demo_stepD [OF s]]] show ?thesis
      by simp
  next
    case False
    then obtain n x where "vm_mem_write m a (bytes64 x) = Some (n, m')"
      using ret e by (auto simp: next_table_def Let_def split: Option.bind_splits)
    then have "demo_step 0 m m'"
      by (rule demo_step_write [OF inv fr])
    then show ?thesis
      by (simp add: demo_step_def)
  qed
qed

lemma demo_map_gva_page:
  assumes inv: "mem_inv m" and fr: "demo_fresh m" and c: "calls m + 6 < 2 ^ 40"
    and room: "phys_top (mem_regions m) + 3 * 4096 < 2 ^ 64"
  obtains m' where "map_gva_page demo_hv demo_host u m gva gpa = Some m'"
    "demo_step 3 m m'" "safe_step 3 m m'"
proof -
  obtain t3 m1 t2 m2 t1 m3 n m' where
    n: "next_table demo_hv demo_host (u L_pml4e) (u L_pdpt_gpa) m (entry_addr (pml4_gpa m) (pidx 3 gva)) = Some (t3, m1)"
      "next_table demo_hv demo_host (u L_pdpte) (u L_pd_gpa) m1 (entry_addr t3 (pidx 2 gva)) = Some (t2, m2)"
      "next_table demo_hv demo_host (u L_pde) (u L_pt_gpa) m2 (entry_addr t2 (pidx 1 gva)) = Some (t1, m3)"
      "vm_mem_write m3 (entry_addr t1 (pidx 0 gva)) (bytes64 (link_to (gpa AND 0xFFFFFFFFFFFFF000)))
        = Some (n, m')"
    and ret: "map_gva_page demo_hv demo_host u m gva gpa = Some m'"
    and s: "safe_step 1 m m1" "safe_step 1 m1 m2" "safe_step 1 m2 m3" "safe_step 0 m3 m'"
    using map_gva_page_safe [OF inv demo_valloc_ok room, where gva = gva and gpa = gpa and u = u and H = demo_hv]
    by metis
  have f: "fits m 1" "fits m1 1" "fits m2 1"
    using room s by (simp_all add: fits_def safe_step_def)
  have d1: "demo_step 1 m m1"
    using demo_next_table [OF inv fr _ f(1) n(1)] c by simp
  have d2: "demo_step 1 m1 m2"
    using demo_next_table [OF safe_stepD [OF s(1)] demo_stepD [OF d1] _ f(2) n(2)] c d1
    by (simp add: demo_step_def)
  have d3: "demo_step 1 m2 m3"
    using demo_next_table [OF safe_stepD [OF s(2)] demo_stepD [OF d2] _ f(3) n(3)] c d1 d2
    by (simp add: demo_step_def)
  note d4 = demo_step_write [OF safe_stepD [OF s(3)] demo_stepD [OF d3] n(4)]
  have "demo_step 3 m m'" "safe_step 3 m m'"
    using demo_step_trans [OF demo_step_trans [OF demo_step_trans [OF d1 d2] d3] d4]
      safe_step_trans [OF safe_step_trans [OF safe_step_trans [OF s(1,2)] s(3)] s(4)]
    by (simp_all add: numeral_3_eq_3)
  with ret that show thesis by blast
qed

lemma demo_map_gva_loop:
  assumes "mem_inv m" "demo_fresh m" "calls m + 6 * n < 2 ^ 40"
    and "phys_top (mem_regions m) + 3 * n * 4096 < 2 ^ 64"
  shows "\<exists>m'. map_gva_loop demo_hv demo_host u m gva gpa n = Some m' \<and> demo_step (3 * n) m m'"
  using assms
proof (induction n arbitrary: m gva gpa)
  case 0
  then show ?case by (simp add: demo_step_def)
next
  case (Suc n)
  have "calls m + 6 < 2 ^ 40" "phys_top (mem_regions m) + 3 * 4096 < 2 ^ 64"
    using Suc.prems(3,4) by simp_all
  from demo_map_gva_page [OF Suc.prems(1,2) this, of "u n" gva gpa] obtain m1 where
    m1: "map_gva_page demo_hv demo_host (u n) m gva gpa = Some m1" "demo_step 3 m m1" "safe_step 3 m m1" .
  have "calls m1 + 6 * n < 2 ^ 40" "phys_top (mem_regions m1) + 3 * n * 4096 < 2 ^ 64"
    using m1(2,3) Suc.prems(3,4) by (simp_all add: demo_step_def safe_step_def)
  from Suc.IH [OF safe_stepD [OF m1(3)] demo_stepD [OF m1(2)] this]
  obtain m' where "map_gva_loop demo_hv demo_host u m1 (gva + CONF_PAGE_SIZE) (gpa + CONF_PAGE_SIZE) n = Some m'"
    "demo_step (3 * n) m1 m'"
    by blast
  with m1(1) demo_step_trans [OF m1(2)] show ?case by fastforce
qed

lemma demo_map_gva:
  assumes inv: "mem_inv m" and fr: "demo_fresh m" and c: "calls m + 6 * unat n + 2 < 2 ^ 40"
    and room: "table_room m n"
  shows "\<exists>m'. map_gva demo_hv demo_host u m gva n gpa = Some (0, m') \<and> demo_step (3 * unat n + 1) m m'"
proof -
  have fits: "fits m 1"
    using room by (simp add: fits_def table_room_def)
  obtain ok m1 where root: "map_gva_root demo_hv demo_host m = (ok, m1)" by fastforce
  have r: "ok \<and> demo_step 1 m m1"
  proof (cases "pml4 m = 0")
    case True
    obtain r m0 where al: "vm_mem_alloc demo_hv demo_host m 1 = (r, m0)" by fastforce
    have "demo_step 1 m m0 \<and> r \<noteq> None"
      using c by (intro demo_step_alloc [OF inv fr _ _ _ fits al]) simp_all
    then obtain hva g where "r = Some (hva, g)" and d: "demo_step 1 m m0"
      by auto
    with True al root have "ok" "m1 = m0\<lparr>pml4 := hva, pml4_gpa := g\<rparr>"
      by (simp_all add: map_gva_root_def)
    with d show ?thesis
      by (simp add: demo_step_def demo_fresh_def)
  next
    case False
    with root fr show ?thesis by (simp add: map_gva_root_def demo_step_def)
  qed
  note s = map_gva_root_safe(1) [OF inv demo_valloc_ok fits root]
  have "calls m1 + 6 * unat n < 2 ^ 40" "phys_top (mem_regions m1) + 3 * unat n * 4096 < 2 ^ 64"
    using r s c room by (simp_all add: demo_step_def safe_step_def table_room_def)
  from demo_map_gva_loop [OF safe_stepD [OF s] _ this] r obtain m' where
    "map_gva_loop demo_hv demo_host u m1 (gva AND 0xFFFFFFFFFFFFF000) (gpa AND 0xFFFFFFFFFFFFF000) (unat n) = Some m'"
    "demo_step (3 * unat n) m1 m'"
    by (blast dest: demo_stepD)
  with root r demo_step_trans [of 1 m m1 "3 * unat n" m'] show ?thesis
    by (simp add: map_gva_def Let_def)
qed

lemma demo_fits: "fits demo_machine n \<longleftrightarrow> unat n * 4096 < 2 ^ 64"
  by (simp add: fits_def demo_machine_def phys_top_def)

text \<open>The machine after \<open>vm_mem_init\<close> with the number of pages of \<open>conf.h\<close>.\<close>

lemma demo_init_from:
  fixes m0 :: "(demo_world, 'z) machine_scheme"
  assumes e: "mem_regions m0 = []" "pml4 m0 = 0" and h0: "heap m0 = (\<lambda>a. None)"
    and c0: "calls m0 = 0" "failures m0 = 0"
  obtains m where "vm_mem_init demo_hv demo_host u m0 16 = Some (0, m)"
    "mem_inv m" "pt_ok m" "pml4 m \<noteq> 0" "demo_fresh m" "calls m \<le> 200" "failures m = 0"
    "phys_top (mem_regions m) \<le> 65 * 4096"
    "\<forall>i e0. i < 0x10000 \<longrightarrow> gva_to_gpa e0 m (of_nat i) = Some (of_nat i)"
    "\<forall>i. i < 0x10000 \<longrightarrow> gbyte m (of_nat i) = Some 0"
    "\<forall>v. v < 16 \<longrightarrow> pte m v \<noteq> 0" "\<forall>a. demo_high a \<longrightarrow> heap m a = None"
proof -
  have inv: "mem_inv m0" "pt_inv m0" "demo_fresh m0"
    by (simp_all add: e h0 mem_inv_def backed_def pt_inv_def demo_fresh_def)
  obtain x m1 where al: "vm_mem_alloc demo_hv demo_host m0 16 = (x, m1)" by fastforce
  have f: "fits m0 16"
    by (simp add: fits_def e phys_top_def)
  have d: "demo_step 1 m0 m1 \<and> x \<noteq> None"
    by (rule demo_step_alloc [OF inv(1,3) _ _ _ f al]) (simp_all add: c0)
  then obtain hva g where x: "x = Some (hva, g)" by auto
  note a = vm_mem_alloc_success [OF inv(1) demo_valloc_ok f al [unfolded x]]
  have s: "safe_step 16 m0 m1"
    using safe_alloc [OF inv(1) demo_valloc_ok f al] by simp
  have g: "g = 0"
    using a(3) by (simp add: e phys_top_def unat_eq_0)
  have top: "phys_top (mem_regions m1) \<le> 16 * 4096"
    using s by (simp add: safe_step_def e phys_top_def)
  then have room: "table_room m1 16"
    by (simp add: table_room_def)
  have "calls m1 + 6 * unat (16 :: u64) + 2 < 2 ^ 40"
    using d by (simp add: demo_step_def c0)
  from demo_map_gva [OF a(1) demo_stepD this room] d obtain m where
    m: "map_gva demo_hv demo_host u m1 0 16 0 = Some (0, m)" "demo_step (3 * unat (16 :: u64) + 1) m1 m"
    by blast
  have init: "vm_mem_init demo_hv demo_host u m0 16 = Some (0, m)"
    using al x g m(1) by (simp add: vm_mem_init_def)
  have nf: "failures m = failures m0"
    using d m(2) by (simp add: demo_step_def)
  have n: "init_room 16"
    by (simp add: init_room_def)
  note ok = vm_mem_init_ok [OF inv(1) e demo_valloc_ok demo_valloc_zeroed n init nf]
  have "safe_step 49 m1 m"
    using map_gva_safe_total [OF a(1) demo_valloc_ok room, of demo_hv u 0 0] m(1) by auto
  then have "phys_top (mem_regions m) \<le> 65 * 4096"
    using top by (simp add: safe_step_def)
  moreover have "calls m \<le> 200" "demo_fresh m" "failures m = 0"
    using d m(2) nf by (simp_all add: demo_step_def c0)
  moreover have "i < 0x10000 \<Longrightarrow> gva_to_gpa e0 m (of_nat i) = Some (of_nat i)" for i e0
    using ok(5) [of i e0] by simp
  moreover have "i < 0x10000 \<Longrightarrow> gbyte m (of_nat i) = Some 0" for i
    using ok(6) [of i] by simp
  moreover have "v < 16 \<Longrightarrow> pte m v \<noteq> 0" for v
    using ok(8) [of v] link_to_nonzero by simp
  moreover have "\<forall>a. demo_high a \<longrightarrow> heap m a = None"
    using d m(2) by (simp add: demo_step_def h0)
  ultimately show thesis
    using init ok(2-4) by (intro that) blast+
qed

lemma demo_init:
  obtains m where "vm_mem_init demo_hv demo_host u demo_machine 16 = Some (0, m)"
    "mem_inv m" "pt_ok m" "pml4 m \<noteq> 0" "demo_fresh m" "calls m \<le> 200" "failures m = 0"
    "phys_top (mem_regions m) \<le> 65 * 4096"
    "\<forall>i e0. i < 0x10000 \<longrightarrow> gva_to_gpa e0 m (of_nat i) = Some (of_nat i)"
    "\<forall>i. i < 0x10000 \<longrightarrow> gbyte m (of_nat i) = Some 0"
    "\<forall>v. v < 16 \<longrightarrow> pte m v \<noteq> 0"
  by (rule demo_init_from [of demo_machine u]) (simp_all add: demo_machine_def)

section \<open>A machine with an empty root table\<close>

text \<open>Two pages of guest memory, all zeros; the second is the root table.\<close>

definition root_machine :: "demo_world machine" where
  "root_machine = \<lparr>mem_regions = [\<lparr>r_gpa = 0, r_npages = 2, r_hva = 0x100000\<rparr>], pml4 = 0x101000,
     pml4_gpa = 0x1000, heap = (\<lambda>a. if in_block 0x100000 0x2000 a then Some 0 else None),
     world = demo_world0, calls = 1, failures = 0\<rparr>"

lemma root_machine_inv: "mem_inv root_machine"
  by (simp add: root_machine_def mem_inv_def backed_def regions_wf_Cons region_ok_def page_aligned_def
      r_hi_def r_lo_def r_size_def h_lo_def)

lemma root_machine_hva: "gpa_to_hva root_machine g = (if unat g < 0x2000 then 0x100000 + g else 0)"
  by (simp add: gpa_to_hva_def root_machine_def r_end_def CONF_PAGE_SIZE_def word_less_nat_alt)

lemma root_machine_byte: "gbyte root_machine g = (if unat g < 0x2000 then Some 0 else None)"
proof (cases "unat g < 0x2000")
  case True
  then have "unat (0x100000 + g) = 0x100000 + unat g"
    by (subst unat_add_small) simp_all
  then have "0x100000 + g \<noteq> 0"
    by (metis add_is_0 unat_0 zero_neq_numeral)
  with True show ?thesis
    unfolding gbyte_def root_machine_hva by (simp add: root_machine_def in_block_def)
next
  case False
  then show ?thesis
    unfolding gbyte_def root_machine_hva by simp
qed

lemma root_machine_root: "k < 512 \<Longrightarrow> ent root_machine 0x1000 k = 0"
proof -
  assume k: "k < 512"
  have "peek (gbyte root_machine) (entry_addr 0x1000 k) 8 = replicate 8 0"
  proof (rule nth_equalityI)
    fix i assume "i < length (peek (gbyte root_machine) (entry_addr 0x1000 k) 8)"
    then have i: "i < 8" by simp
    have a: "entry_addr 0x1000 k + of_nat i = 0x1000 + of_nat (8 * k + i)"
      by (simp add: entry_addr_def)
    have "unat (0x1000 + of_nat (8 * k + i) :: u64) = 0x1000 + (8 * k + i)"
      using k i by (subst unat_add_of_nat) simp_all
    with k i show "peek (gbyte root_machine) (entry_addr 0x1000 k) 8 ! i = replicate 8 0 ! i"
      unfolding peek_def by (simp add: a root_machine_byte del: of_nat_add of_nat_mult)
  qed simp
  then show ?thesis
    by (simp add: ent_def word64_def numeral_eq_Suc)
qed

lemma root_machine_pt: "pt_ok root_machine"
proof (rule empty_root)
  show "page_ok root_machine 0x1000"
    unfolding page_ok_def avail_def
  proof (intro conjI allI impI)
    fix i :: nat assume i: "i < 4096"
    have "unat (0x1000 + of_nat i :: u64) = 0x1000 + i"
      using i by (subst unat_add_of_nat) simp_all
    with i show "gbyte root_machine (0x1000 + of_nat i) \<noteq> None"
      by (simp add: root_machine_byte)
  qed (simp_all add: page_aligned_def)
  show "ent root_machine 0x1000 k = 0" if "k < 512" for k
    using that by (rule root_machine_root)
qed (simp add: root_machine_def)

text \<open>The same regions in a process whose whole address space is allocated.\<close>

definition full_machine :: "demo_world machine" where
  "full_machine = root_machine\<lparr>heap := \<lambda>a. Some 0\<rparr>"

lemma full_machine_inv: "mem_inv full_machine"
  using root_machine_inv by (simp add: full_machine_def mem_inv_def backed_def)

end
