(* ===== verification/MemoryProperties.thy ===== *)
theory MemoryProperties
  imports DemoHost
begin

text \<open>
  The properties of \<open>src/src/vm_mem.c\<close>, each with an instance at a concrete machine:
  the empty machine of \<open>DemoHost\<close>, the machine after \<open>vm_mem_init\<close>, or a machine with
  an empty root table.
\<close>

section \<open>Virtual memory\<close>

abbreviation no_locals :: "nat \<Rightarrow> local_var \<Rightarrow> u64" where
  "no_locals \<equiv> \<lambda>i v. 0"


lemma demo_map:
  assumes "table_room demo_machine n" "unat n < 2 ^ 30"
  obtains m' where "map_gva demo_hv demo_host no_locals demo_machine gva n gpa = Some (0, m')"
    "failures m' = failures demo_machine" "demo_fresh m'" "calls m' \<le> 6 * unat n + 2"
proof -
  have "calls demo_machine + 6 * unat n + 2 < 2 ^ 40"
    using assms(2) by (simp add: demo_machine_def)
  from demo_map_gva [OF demo_machine_inv(1,3) this assms(1), of no_locals gva gpa] that
  show thesis by (auto simp: demo_step_def demo_machine_def)
qed

lemma demo_table_room: "table_room demo_machine 2"
  by (simp add: table_room_def demo_machine_def phys_top_def)

lemma demo_map2:
  obtains m' where "map_gva demo_hv demo_host no_locals demo_machine 0x400000 2 0x5000 = Some (0, m')"
    "failures m' = failures demo_machine"
proof -
  have "unat (2 :: u64) < 2 ^ 30"
    by simp
  from demo_map [OF demo_table_room this, of "0x400000" "0x5000"] that show thesis
    by blast
qed





lemma demo_map_again:
  obtains m m' :: "demo_world machine" where "mem_inv m" "pt_ok m" "pml4 m \<noteq> 0" "table_room m 1"
    "map_gva demo_hv demo_host no_locals m 0x400000 1 0x3000 = Some (0, m')"
    "failures m' = failures m"
    "\<forall>i e0. i < 0x10000 \<longrightarrow> gva_to_gpa e0 m (of_nat i) = Some (of_nat i)"
    "\<forall>i. i < 0x10000 \<longrightarrow> gbyte m (of_nat i) = Some 0"
    "\<forall>v. v < 16 \<longrightarrow> pte m v \<noteq> 0"
    "vm_mem_init demo_hv demo_host no_locals demo_machine 16 = Some (0, m)"
proof -
  obtain m where m: "vm_mem_init demo_hv demo_host no_locals demo_machine 16 = Some (0, m)"
    "mem_inv m" "pt_ok m" "pml4 m \<noteq> 0" "demo_fresh m" "calls m \<le> 200"
    "phys_top (mem_regions m) \<le> 65 * 4096"
    and z: "\<forall>i e0. i < 0x10000 \<longrightarrow> gva_to_gpa e0 m (of_nat i) = Some (of_nat i)"
    "\<forall>i. i < 0x10000 \<longrightarrow> gbyte m (of_nat i) = Some 0" "\<forall>v. v < 16 \<longrightarrow> pte m v \<noteq> 0"
    by (rule demo_init)
  have room: "table_room m 1"
    using m(7) by (simp add: table_room_def)
  have "calls m + 6 * unat (1 :: u64) + 2 < 2 ^ 40"
    using m(6) by simp
  from demo_map_gva [OF m(2,5) this room, of no_locals "0x400000" "0x3000"] obtain m' where
    m': "map_gva demo_hv demo_host no_locals m 0x400000 1 0x3000 = Some (0, m')" "failures m' = failures m"
    by (auto simp: demo_step_def)
  from that [OF m(2-4) room m' z m(1)] show thesis .
qed


text \<open>C6: whatever the host calls do, as long as the guest physical space has room for the
  tables, \<open>map_gva\<close> returns without undefined behaviour, with 0 or -1, the memory
  invariant holds afterwards, and -1 means that a host call failed.\<close>

theorem map_gva_never_stuck:
  assumes "mem_inv m" "valloc_ok A" "table_room m n"
  shows "\<exists>r m'. map_gva H A u m gva n gpa = Some (r, m') \<and> mem_inv m'
    \<and> (r = 0 \<or> r = -1 \<and> failures m < failures m')"
  using map_gva_safe_total [OF assms, of H u gva gpa] by (auto simp: safe_step_def)

theorem map_gva_never_stuck_witness:
  "\<exists>r m'. map_gva demo_hv (demo_host\<lparr>valloc_at := \<lambda>n h sz. 0\<rparr>) no_locals demo_machine 0 2 0 = Some (r, m')
     \<and> mem_inv m' \<and> (r = 0 \<or> r = -1 \<and> failures demo_machine < failures m')"
  by (rule map_gva_never_stuck [OF demo_machine_inv(1) _ demo_table_room])
    (simp add: valloc_ok_def)







text \<open>C31: \<open>decode_gva\<close> splits the low 48 bits of an address into four table offsets,
  multiples of 8 below 4096, and a page offset, and loses none of them.\<close>

theorem decode_gva_recompose:
  "unat (pml4_idx (decode_gva gva)) div 8 * 2 ^ 39 + unat (pdpt_idx (decode_gva gva)) div 8 * 2 ^ 30
     + unat (pd_idx (decode_gva gva)) div 8 * 2 ^ 21 + unat (pt_idx (decode_gva gva)) div 8 * 2 ^ 12
     + unat (va_offset (decode_gva gva)) = unat gva mod 2 ^ 48
   \<and> (\<forall>i \<in> {pml4_idx (decode_gva gva), pdpt_idx (decode_gva gva), pd_idx (decode_gva gva),
       pt_idx (decode_gva gva)}. 8 dvd unat i \<and> unat i < 4096)"
proof -
  have idx: "unat i = 8 * pidx k gva" if "(ucast i :: u64) = of_nat (8 * pidx k gva)" for i :: u16 and k
  proof -
    have "8 * pidx k gva < 4096"
      using pidx_less [of k gva] by simp
    then have "unat (of_nat (8 * pidx k gva) :: u64) = 8 * pidx k gva"
      by (intro unat_of_nat_small) (erule less_trans, simp)
    moreover have "unat (ucast i :: u64) = unat i"
      using unsigned_less [of i, where ?'a = nat] by (intro unat_ucast_small) simp
    ultimately show ?thesis
      using that by metis
  qed
  note i = idx [OF decode_gva_index(1)] idx [OF decode_gva_index(2)] idx [OF decode_gva_index(3)]
    idx [OF decode_gva_index(4)]
  have off: "unat (va_offset (decode_gva gva)) = unat gva mod 4096"
  proof -
    have "unat (ucast (va_offset (decode_gva gva)) :: u64) = unat (va_offset (decode_gva gva))"
      using unsigned_less [of "va_offset (decode_gva gva)", where ?'a = nat]
      by (intro unat_ucast_small) simp
    then show ?thesis
      by (simp only: decode_gva_offset unat_low_12)
  qed
  have "unat gva mod 2 ^ 48 = unat gva mod (4096 * 2 ^ 36)"
    by simp
  also have "\<dots> = 4096 * vpage gva + unat gva mod 4096"
    unfolding vpage_def by (rule mod_mult2_eq)
  also have "\<dots> = pidx 3 gva * 2 ^ 39 + pidx 2 gva * 2 ^ 30 + pidx 1 gva * 2 ^ 21 + pidx 0 gva * 2 ^ 12
      + unat gva mod 4096"
    unfolding vpage_split by simp
  finally have "unat gva mod 2 ^ 48 = pidx 3 gva * 2 ^ 39 + pidx 2 gva * 2 ^ 30 + pidx 1 gva * 2 ^ 21
      + pidx 0 gva * 2 ^ 12 + unat gva mod 4096" .
  moreover have "\<forall>i \<in> {pml4_idx (decode_gva gva), pdpt_idx (decode_gva gva), pd_idx (decode_gva gva),
       pt_idx (decode_gva gva)}. 8 dvd unat i \<and> unat i < 4096"
    using i pidx_less [of _ gva] by auto
  ultimately show ?thesis
    unfolding i off by simp
qed

theorem decode_gva_recompose_witness:
  "let a = decode_gva 0xFFFF800040201123 in
     unat (pml4_idx a) div 8 * 2 ^ 39 + unat (pdpt_idx a) div 8 * 2 ^ 30 + unat (pd_idx a) div 8 * 2 ^ 21
       + unat (pt_idx a) div 8 * 2 ^ 12 + unat (va_offset a) = 0x800040201123
     \<and> 8 dvd unat (pml4_idx a) \<and> unat (pml4_idx a) < 4096"
  using decode_gva_recompose [of "0xFFFF800040201123"] by (simp add: Let_def)

section \<open>Physical memory\<close>

text \<open>C17: \<open>gpa_to_hva\<close> implements the address map that the region list denotes: it
  returns a non-null address exactly inside a region, there the address at the same distance
  in the region's buffer, which is allocated, and no two guest addresses share a byte.\<close>

theorem gpa_to_hva_correct:
  assumes "mem_inv m"
  shows "(\<forall>g. gpa_to_hva m g \<noteq> 0 \<longleftrightarrow> (\<exists>p \<in> set (mem_regions m). in_region p g))
    \<and> (\<forall>p \<in> set (mem_regions m). \<forall>g. in_region p g \<longrightarrow>
        gpa_to_hva m g = r_hva p + (g - r_gpa p) \<and> heap m (gpa_to_hva m g) \<noteq> None)
    \<and> inj_on (gpa_to_hva m) {g. gpa_to_hva m g \<noteq> 0}"
proof (intro conjI)
  note wf = mem_inv_wf [OF assms]
  show dom: "\<forall>g. gpa_to_hva m g \<noteq> 0 \<longleftrightarrow> (\<exists>p \<in> set (mem_regions m). in_region p g)"
    by (simp add: gpa_to_hva_def gpa_to_hva_in_nonzero_iff [OF wf])
  show "\<forall>p \<in> set (mem_regions m). \<forall>g. in_region p g \<longrightarrow>
        gpa_to_hva m g = r_hva p + (g - r_gpa p) \<and> heap m (gpa_to_hva m g) \<noteq> None"
    using dom heap_gpa_to_hva [OF assms] gpa_to_hva_of_region [OF assms] by blast
  show "inj_on (gpa_to_hva m) {g. gpa_to_hva m g \<noteq> 0}"
    using gpa_to_hva_in_inject [OF wf] by (auto simp: inj_on_def gpa_to_hva_def)
qed

theorem gpa_to_hva_correct_witness:
  "gpa_to_hva root_machine 0x1008 = 0x101008 \<and> inj_on (gpa_to_hva root_machine) {g. gpa_to_hva root_machine g \<noteq> 0}"
proof -
  have "in_region \<lparr>r_gpa = 0, r_npages = 2, r_hva = 0x100000\<rparr> 0x1008"
    by (simp add: in_region_def r_lo_def r_hi_def r_size_def)
  moreover have "\<lparr>r_gpa = 0, r_npages = 2, r_hva = 0x100000\<rparr> \<in> set (mem_regions root_machine)"
    by (simp add: root_machine_def)
  ultimately show ?thesis
    using gpa_to_hva_correct [OF root_machine_inv] by fastforce
qed

text \<open>C18: \<open>vm_mem_write\<close> stores the bytes up to the first address without memory, reports
  their number, changes no other byte, and a read back returns exactly those bytes. Neither
  access is undefined as long as the length is at most \<open>INT_MAX\<close>.\<close>

theorem vm_mem_write_then_read:
  assumes "mem_inv m" "length bs \<le> INT_MAX"
  shows "\<exists>k m'. vm_mem_write m g bs = Some (k, m') \<and> mem_inv m' \<and> avail (gbyte m) g k
    \<and> (k = length bs \<or> k < length bs \<and> gbyte m (g + of_nat k) = None)
    \<and> vm_mem_read m' g (length bs) = Some (take k bs)
    \<and> (\<forall>x. in_block g k x \<or> gbyte m' x = gbyte m x)"
proof -
  let ?k = "span (gbyte m) g (length bs)"
  have k: "?k \<le> length bs" "avail (gbyte m) g ?k"
    by (simp_all add: span_le avail_span)
  obtain m' where w: "vm_mem_write m g bs = Some (?k, m')" "mem_inv m'"
    "gbyte m' = poke (gbyte m) g (take ?k bs)"
    using gm.write_law [OF assms] by blast
  have "dom (gbyte m') = dom (gbyte m)"
    unfolding w(3) using k by (intro dom_poke) simp
  then have span: "span (gbyte m') g (length bs) = ?k"
    by (rule span_cong)
  have len: "length (take ?k bs) = ?k" "length (take ?k bs) \<le> 2 ^ 64"
    using k assms(2) by (simp_all add: INT_MAX_def)
  have "vm_mem_read m' g (length bs) = Some (take ?k bs)"
    using gm.read_law [OF w(2) assms(2), of g] peek_poke_same [OF len(2), of ?k "gbyte m" g] len(1)
    by (simp add: span w(3) [symmetric])
  moreover have "in_block g ?k x \<or> gbyte m' x = gbyte m x" for x
    unfolding w(3) poke_apply [OF len(2)] len(1) by simp
  moreover have "?k = length bs \<or> ?k < length bs \<and> gbyte m (g + of_nat ?k) = None"
    using k(1) span_stop [of "gbyte m" g "length bs"] by auto
  ultimately show ?thesis
    using w k by blast
qed

theorem vm_mem_write_then_read_witness:
  "\<exists>m'. vm_mem_write root_machine 0x1FFE [1, 2, 3] = Some (2, m') \<and> vm_mem_read m' 0x1FFE 3 = Some [1, 2]"
proof -
  obtain k m' where r: "vm_mem_write root_machine 0x1FFE [1, 2, 3] = Some (k, m')"
    "k = length [1, 2, 3 :: u8] \<or> k < length [1, 2, 3 :: u8] \<and> gbyte root_machine (0x1FFE + of_nat k) = None"
    "avail (gbyte root_machine) 0x1FFE k" "vm_mem_read m' 0x1FFE (length [1, 2, 3 :: u8]) = Some (take k [1, 2, 3])"
    using vm_mem_write_then_read [OF root_machine_inv, of "[1, 2, 3]" "0x1FFE"] by (auto simp: INT_MAX_def)
  have "k \<noteq> 3"
    using r(3) by (auto simp: avail_def root_machine_byte dest: spec [of _ 2])
  moreover have "k = 0 \<Longrightarrow> False" "k = 1 \<Longrightarrow> False"
    using r(2) by (simp_all add: root_machine_byte)
  ultimately have "k = 2"
    using r(2) by (cases "k = 0"; cases "k = 1") auto
  with r(1,4) show ?thesis by (simp add: numeral_3_eq_3)
qed

text \<open>C30: \<open>find_free_mem_region\<close> is first fit: it finds the lowest address at which
  \<open>n\<close> pages meet no region, for every well-formed region list.\<close>

theorem find_free_mem_region_first_fit:
  assumes "regions_wf rs" "0 < n" "unat n * 4096 < 2 ^ 64"
  shows "\<exists>s. find_free_mem_region rs n = Some s \<and> free_range rs (unat s) (unat n * 4096)
    \<and> (\<forall>a. free_range rs a (unat n * 4096) \<longrightarrow> unat s \<le> a)"
proof -
  have "0 < unat n"
    using assms(2) by (simp add: word_less_nat_alt)
  with find_free_loop_spec [OF assms(1) _ assms(3) _ refl, of 0] assms(2) show ?thesis
    by (simp add: find_free_mem_region_def word_less_1)
qed

theorem find_free_mem_region_first_fit_witness:
  "find_free_mem_region [\<lparr>r_gpa = 0, r_npages = 1, r_hva = 0x10000\<rparr>,
     \<lparr>r_gpa = 0x2000, r_npages = 1, r_hva = 0x20000\<rparr>] 2 = Some 0x3000
   \<and> free_range [\<lparr>r_gpa = 0, r_npages = 1, r_hva = 0x10000\<rparr>,
     \<lparr>r_gpa = 0x2000, r_npages = 1, r_hva = 0x20000\<rparr>] 0x3000 0x2000"
proof -
  let ?rs = "[\<lparr>r_gpa = 0, r_npages = 1, r_hva = 0x10000\<rparr>, \<lparr>r_gpa = 0x2000, r_npages = 1, r_hva = 0x20000\<rparr>]"
  have "regions_wf ?rs"
    by (simp add: regions_wf_Cons region_ok_def page_aligned_def r_hi_def r_lo_def r_size_def h_lo_def
        host_apart_def)
  moreover have "find_free_mem_region ?rs 2 = Some 0x3000"
    by (simp add: find_free_mem_region_def r_end_def CONF_PAGE_SIZE_def)
  ultimately show ?thesis
    using find_free_mem_region_first_fit [of ?rs 2] by simp
qed

text \<open>C21: \<open>map_gpa\<close> of a valid region, when the host calls succeed, returns -1 and changes
  nothing exactly when the region overlaps one in the list; otherwise it returns 0, the
  list is well formed again and holds the new region besides the old ones, and memory
  contents stay.\<close>

theorem map_gpa_rejects_overlap:
  assumes "mem_inv m" "region_ok new" "buffer_ok m new"
    and "r_gpa new = gpa AND 0xFFFFFFFFFFFFF000" "r_npages new = npages" "r_hva new = hva"
    and "fst (hv_vm_map H (world m) hva (gpa AND 0xFFFFFFFFFFFFF000) (npages * CONF_PAGE_SIZE) (HV_MEMORY_RWX H)) = 0"
    and "\<not> malloc_null A (calls m)" and "map_gpa H A m gpa npages hva = (r, m')"
  shows "if \<exists>p \<in> set (mem_regions m). overlaps p new then r = -1 \<and> m' = m
    else r = 0 \<and> mem_inv m' \<and> set (mem_regions m') = insert new (set (mem_regions m))
      \<and> heap m' = heap m"
proof -
  have new: "new = \<lparr>r_gpa = gpa AND 0xFFFFFFFFFFFFF000, r_npages = npages, r_hva = hva\<rparr>"
    using assms(4-6) by simp
  have n: "\<not> npages < 1"
    using assms(2,5) by (auto simp: region_ok_def word_less_1)
  note none = insert_region_None_iff [OF mem_inv_wf [OF assms(1)] assms(2)]
  show ?thesis
  proof (cases "\<exists>p \<in> set (mem_regions m). overlaps p new")
    case True
    with none assms(9) n new show ?thesis by (simp add: map_gpa_def Let_def)
  next
    case False
    with none obtain rs where "insert_region (mem_regions m) new = Some rs" by blast
    with assms(7-9) n new have r: "r = 0" and h: "heap m' = heap m"
      by (auto simp: map_gpa_def Let_def split: prod.splits)
    from map_gpa_inv [OF assms(1) assms(9) [unfolded r] new assms(2,3)] r h False show ?thesis
      by simp
  qed
qed

theorem map_gpa_rejects_overlap_witness:
  "map_gpa demo_hv demo_host full_machine 0x1000 2 0x200000 = (-1, full_machine)
   \<and> (\<exists>m'. map_gpa demo_hv demo_host full_machine 0x2000 2 0x200000 = (0, m') \<and> mem_inv m')"
proof -
  have run: "if \<exists>p \<in> set (mem_regions full_machine). overlaps p \<lparr>r_gpa = g, r_npages = 2, r_hva = 0x200000\<rparr>
      then r = -1 \<and> m' = full_machine else r = 0 \<and> mem_inv m'"
    if g: "g = 0x1000 \<or> g = 0x2000" and ret: "map_gpa demo_hv demo_host full_machine g 2 0x200000 = (r, m')"
    for g r m'
  proof -
    let ?new = "\<lparr>r_gpa = g, r_npages = 2, r_hva = 0x200000\<rparr>"
    have "region_ok ?new" "buffer_ok full_machine ?new"
      using g by (auto simp: region_ok_def page_aligned_def r_hi_def r_lo_def r_size_def h_lo_def
          buffer_ok_def host_apart_def full_machine_def root_machine_def)
    moreover have "r_gpa ?new = g AND 0xFFFFFFFFFFFFF000"
      using g by auto
    ultimately have "if \<exists>p \<in> set (mem_regions full_machine). overlaps p ?new then r = -1 \<and> m' = full_machine
        else r = 0 \<and> mem_inv m' \<and> set (mem_regions m') = insert ?new (set (mem_regions full_machine))
          \<and> heap m' = heap full_machine"
      by (rule map_gpa_rejects_overlap [OF full_machine_inv _ _ _ _ _ _ _ ret]) simp_all
    then show ?thesis by (simp split: if_splits)
  qed
  obtain r1 m1 r2 m2 where
    ret: "map_gpa demo_hv demo_host full_machine 0x1000 2 0x200000 = (r1, m1)"
      "map_gpa demo_hv demo_host full_machine 0x2000 2 0x200000 = (r2, m2)"
    by (metis surj_pair)
  have "\<exists>p \<in> set (mem_regions full_machine). overlaps p \<lparr>r_gpa = 0x1000, r_npages = 2, r_hva = 0x200000\<rparr>"
    "\<not> (\<exists>p \<in> set (mem_regions full_machine). overlaps p \<lparr>r_gpa = 0x2000, r_npages = 2, r_hva = 0x200000\<rparr>)"
    by (simp_all add: full_machine_def root_machine_def overlaps_def r_hi_def r_lo_def r_size_def)
  with run [OF _ ret(1)] run [OF _ ret(2)] ret show ?thesis by simp
qed

text \<open>C19: an allocation that returns gives \<open>n\<close> pages of guest memory at a page boundary,
  in a range that was free, readable and writable, holding what \<open>valloc\<close> put there, with the
  returned host address behind it; the bytes of all other addresses stay.\<close>

theorem vm_mem_alloc_contract:
  assumes "mem_inv m" "valloc_ok A" "fits m n"
    and "vm_mem_alloc H A m n = (Some (hva, g), m')"
  shows "mem_inv m' \<and> page_aligned g \<and> free_range (mem_regions m) (unat g) (unat n * 4096)
    \<and> gpa_to_hva m' g = hva \<and> hva \<noteq> 0 \<and> 0 < n
    \<and> (\<forall>x. gbyte m' x = (if in_block g (unat n * 4096) x
        then Some (valloc_fill A (calls m) (gpa_to_hva m' x)) else gbyte m x))"
  using vm_mem_alloc_success [OF assms] by blast

theorem vm_mem_alloc_contract_witness:
  "\<exists>hva g m'. vm_mem_alloc demo_hv demo_host demo_machine 2 = (Some (hva, g), m') \<and> gbyte m' g = Some 0"
proof -
  have f: "fits demo_machine 2"
    by (simp add: demo_fits)
  obtain x m' where al: "vm_mem_alloc demo_hv demo_host demo_machine 2 = (x, m')" by fastforce
  have "x \<noteq> None"
    by (rule demo_alloc(1) [OF demo_machine_inv(1,3) _ _ _ f al]) (simp_all add: demo_machine_def)
  then obtain hva g where x: "x = Some (hva, g)" by auto
  from vm_mem_alloc_contract [OF demo_machine_inv(1) demo_valloc_ok f al [unfolded x]] al x
  show ?thesis by (auto simp: in_block_def)
qed

text \<open>C20: a failed allocation is undone. Whether the region search, \<open>valloc\<close>, the
  hypervisor's mapping or the list node fails, the region list, the host heap and the page
  table root are as before, and for \<open>n > 0\<close> some host call did fail.\<close>

theorem vm_mem_alloc_rollback:
  assumes "mem_inv m" "valloc_ok A" "fits m n"
    and "vm_mem_alloc H A m n = (None, m')"
  shows "mem_regions m' = mem_regions m \<and> heap m' = heap m \<and> pml4 m' = pml4 m
    \<and> pml4_gpa m' = pml4_gpa m \<and> mem_inv m' \<and> (n = 0 \<or> failures m < failures m')"
proof -
  note f = vm_mem_alloc_failure [OF assms]
  then have "mem_inv m'"
    using assms(1) by (simp add: mem_inv_def backed_def)
  with f show ?thesis by (auto simp: le_less)
qed

theorem vm_mem_alloc_rollback_witness:
  "\<exists>m'. vm_mem_alloc demo_hv (demo_host\<lparr>malloc_null := \<lambda>n. True\<rparr>) demo_machine 2 = (None, m')
     \<and> heap m' = heap demo_machine"
proof -
  let ?A = "demo_host\<lparr>malloc_null := \<lambda>n. True\<rparr>"
  have A: "valloc_ok ?A"
    using demo_valloc_ok by (simp add: valloc_ok_def)
  have f: "fits demo_machine 2"
    by (simp add: demo_fits)
  have fail: "fst (map_gpa demo_hv ?A m g n h) \<noteq> 0" for m :: "demo_world machine" and g n h
    by (simp add: map_gpa_def Let_def split: option.splits)
  obtain x m' where al: "vm_mem_alloc demo_hv ?A demo_machine 2 = (x, m')" by fastforce
  then have "x = None"
    using fail by (auto simp: vm_mem_alloc_def Let_def split: option.splits prod.splits if_splits)
      (metis fst_conv)
  with vm_mem_alloc_rollback [OF demo_machine_inv(1) A f] al show ?thesis by blast
qed

text \<open>C32: the dump is exact: its used lines cover the addresses of the regions, its free
  lines those below the end of the highest region that lie in none.\<close>

theorem vm_mem_dump_exact:
  assumes "regions_wf rs"
  shows "((\<exists>(a, b, k, used) \<in> set (vm_mem_dump rs). used \<and> a \<le> g \<and> g \<le> b)
      \<longleftrightarrow> (\<exists>p \<in> set rs. in_region p g))
    \<and> ((\<exists>(a, b, k, used) \<in> set (vm_mem_dump rs). \<not> used \<and> a \<le> g \<and> g \<le> b)
      \<longleftrightarrow> unat g < phys_top rs \<and> \<not> (\<exists>p \<in> set rs. in_region p g))"
  using vm_mem_dump_from_used [OF assms, of 0 g] vm_mem_dump_from_free [OF assms, of 0 g]
  by (simp add: vm_mem_dump_def)

theorem vm_mem_dump_exact_witness:
  "vm_mem_dump [\<lparr>r_gpa = 0x2000, r_npages = 1, r_hva = 0x20000\<rparr>]
     = [(0, 0x1FFF, 2, False), (0x2000, 0x2FFF, 1, True)]
   \<and> (\<exists>(a, b, k, used) \<in> set (vm_mem_dump [\<lparr>r_gpa = 0x2000, r_npages = 1, r_hva = 0x20000\<rparr>]).
        used \<and> a \<le> 0x2ABC \<and> 0x2ABC \<le> b)"
proof -
  let ?rs = "[\<lparr>r_gpa = 0x2000, r_npages = 1, r_hva = 0x20000\<rparr>]"
  have "regions_wf ?rs"
    by (simp add: regions_wf_Cons region_ok_def page_aligned_def r_hi_def r_lo_def r_size_def h_lo_def)
  from vm_mem_dump_exact [OF this, of "0x2ABC"]
  have "\<exists>(a, b, k, used) \<in> set (vm_mem_dump ?rs). used \<and> a \<le> 0x2ABC \<and> 0x2ABC \<le> b"
    by (simp only: in_region_def r_lo_def r_hi_def r_size_def) simp
  then show ?thesis
    by (simp add: vm_mem_dump_def r_end_def CONF_PAGE_SIZE_def)
qed

end
