(* ===== verification/Registers.thy ===== *)
theory Registers
  imports MapGva
begin

text \<open>
  The virtual CPU's registers: \<open>rreg\<close>, \<open>wreg\<close>, \<open>push\<close>, \<open>push32\<close> and \<open>push64\<close>
  of \<open>src/src/vcpu.c\<close>, the calls to the VM control structure that the rest of the
  program makes, and the behaviour documented for them as a predicate on the parameter.
\<close>

section \<open>Operations\<close>

definition rreg :: "'w hv_ops \<Rightarrow> ('w, 'z) machine_scheme \<Rightarrow> hv_x86_reg \<Rightarrow> u64" where
  "rreg H m reg = snd (hv_vcpu_read_register H (world m) reg 0)"

definition wreg :: "'w hv_ops \<Rightarrow> hv_x86_reg \<Rightarrow> u64 \<Rightarrow> ('w, 'z) machine_scheme \<Rightarrow> ('w, 'z) machine_scheme" where
  "wreg H reg val m = m\<lparr>world := snd (hv_vcpu_write_register H (world m) reg val)\<rparr>"

text \<open>A read into a variable whose value is \<open>old\<close>; a write whose result is not looked at.\<close>

definition read_reg :: "'w hv_ops \<Rightarrow> ('w, 'z) machine_scheme \<Rightarrow> hv_x86_reg \<Rightarrow> u64 \<Rightarrow> u64" where
  "read_reg H m reg old = snd (hv_vcpu_read_register H (world m) reg old)"

definition read_vmcs :: "'w hv_ops \<Rightarrow> ('w, 'z) machine_scheme \<Rightarrow> vmcs_field \<Rightarrow> u64 \<Rightarrow> u64" where
  "read_vmcs H m field old = snd (hv_vmx_vcpu_read_vmcs H (world m) field old)"

definition write_vmcs :: "'w hv_ops \<Rightarrow> vmcs_field \<Rightarrow> u64 \<Rightarrow> ('w, 'z) machine_scheme \<Rightarrow> ('w, 'z) machine_scheme" where
  "write_vmcs H field val m = m\<lparr>world := snd (hv_vmx_vcpu_write_vmcs H (world m) field val)\<rparr>"

text \<open>\<open>push\<close>: 0, or -1 when the stack is not mapped or the register write fails.\<close>

definition push :: "'w hv_ops \<Rightarrow> ('w, 'z) machine_scheme \<Rightarrow> u8 list \<Rightarrow> (int \<times> ('w, 'z) machine_scheme) option" where
  "push H m val = do {
     let stack_addr = rreg H m HV_X86_RSP - of_nat (length val);
     (n, m) \<leftarrow> vm_mem_write m stack_addr val;
     if n \<noteq> length val then Some (-1, m)
     else let (err, w) = hv_vcpu_write_register H (world m) HV_X86_RSP stack_addr
          in Some (if err \<noteq> 0 then -1 else 0, m\<lparr>world := w\<rparr>)
   }"

definition push32 :: "'w hv_ops \<Rightarrow> ('w, 'z) machine_scheme \<Rightarrow> u32 \<Rightarrow> (int \<times> ('w, 'z) machine_scheme) option" where
  "push32 H m val = push H m (bytes32 val)"

definition push64 :: "'w hv_ops \<Rightarrow> ('w, 'z) machine_scheme \<Rightarrow> u64 \<Rightarrow> (int \<times> ('w, 'z) machine_scheme) option" where
  "push64 H m val = push H m (bytes64 val)"

section \<open>The register file\<close>

text \<open>
  What the framework documents for a virtual CPU that exists, with \<open>rg w\<close> the registers
  and \<open>vc w\<close> the control structure of a world: accesses succeed, a write sets what it
  names, and the two files are independent but for CR0, which is in both.
\<close>

definition read_only :: "vmcs_field \<Rightarrow> bool" where
  "read_only f \<longleftrightarrow> f \<in> {VMCS_RO_EXIT_REASON, VMCS_RO_EXIT_QUALIFIC, VMCS_RO_VMEXIT_INSTR_LEN,
     VMCS_RO_IDT_VECTOR_INFO}"

definition hv_regs_ok ::
  "'w hv_ops \<Rightarrow> ('w \<Rightarrow> hv_x86_reg \<Rightarrow> u64) \<Rightarrow> ('w \<Rightarrow> vmcs_field \<Rightarrow> u64) \<Rightarrow> bool" where
  "hv_regs_ok H rg vc \<longleftrightarrow>
     (\<forall>w r old. hv_vcpu_read_register H w r old = (0, rg w r))
   \<and> (\<forall>w f old. hv_vmx_vcpu_read_vmcs H w f old = (0, vc w f))
   \<and> (\<forall>w r v. fst (hv_vcpu_write_register H w r v) = 0
        \<and> rg (snd (hv_vcpu_write_register H w r v)) = (rg w)(r := v)
        \<and> (\<forall>f. r \<noteq> HV_X86_CR0 \<or> f \<noteq> VMCS_GUEST_CR0 \<longrightarrow> vc (snd (hv_vcpu_write_register H w r v)) f = vc w f))
   \<and> (\<forall>w f v. \<not> read_only f \<longrightarrow> vc (snd (hv_vmx_vcpu_write_vmcs H w f v)) = (vc w)(f := v)
        \<and> (\<forall>r. r \<noteq> HV_X86_CR0 \<or> f \<noteq> VMCS_GUEST_CR0 \<longrightarrow> rg (snd (hv_vmx_vcpu_write_vmcs H w f v)) r = rg w r))"

lemma rreg_ok: "hv_regs_ok H rg vc \<Longrightarrow> rreg H m r = rg (world m) r"
  by (simp add: hv_regs_ok_def rreg_def)

lemma read_reg_ok: "hv_regs_ok H rg vc \<Longrightarrow> read_reg H m r old = rg (world m) r"
  by (simp add: hv_regs_ok_def read_reg_def)

lemma read_vmcs_ok: "hv_regs_ok H rg vc \<Longrightarrow> read_vmcs H m f old = vc (world m) f"
  by (simp add: hv_regs_ok_def read_vmcs_def)

lemma wreg_ok:
  assumes "hv_regs_ok H rg vc"
  shows "rg (world (wreg H r v m)) = (rg (world m))(r := v)"
    and "r \<noteq> HV_X86_CR0 \<or> f \<noteq> VMCS_GUEST_CR0 \<Longrightarrow> vc (world (wreg H r v m)) f = vc (world m) f"
  using assms by (simp_all add: hv_regs_ok_def wreg_def)

lemma write_vmcs_ok:
  assumes "hv_regs_ok H rg vc" "\<not> read_only f"
  shows "vc (world (write_vmcs H f v m)) = (vc (world m))(f := v)"
    and "r \<noteq> HV_X86_CR0 \<or> f \<noteq> VMCS_GUEST_CR0 \<Longrightarrow> rg (world (write_vmcs H f v m)) r = rg (world m) r"
  using assms by (simp_all add: hv_regs_ok_def write_vmcs_def)

lemmas hv_ok_simps = rreg_ok read_reg_ok read_vmcs_ok wreg_ok write_vmcs_ok

text \<open>Register accesses leave memory alone.\<close>

definition same_memory :: "('w, 'z) machine_scheme \<Rightarrow> ('w, 'z) machine_scheme \<Rightarrow> bool" where
  "same_memory m m' \<longleftrightarrow> (\<exists>w. m' = m\<lparr>world := w\<rparr>)"

lemma same_memory_refl [simp]: "same_memory m m"
  unfolding same_memory_def by (rule exI [of _ "world m"]) simp

lemma same_memoryI: "m' = m\<lparr>world := w\<rparr> \<Longrightarrow> same_memory m m'"
  unfolding same_memory_def by blast

lemma same_memory_heap_trans:
  assumes "same_memory (m\<lparr>heap := heap m1\<rparr>) m1" "same_memory (m1\<lparr>heap := heap m2\<rparr>) m2"
  shows "same_memory (m\<lparr>heap := heap m2\<rparr>) m2"
proof -
  obtain w w' where "m1 = m\<lparr>heap := heap m1, world := w\<rparr>" and m2: "m2 = m1\<lparr>heap := heap m2, world := w'\<rparr>"
    using assms unfolding same_memory_def by blast
  then have "m1\<lparr>heap := heap m2, world := w'\<rparr> = m\<lparr>heap := heap m1, world := w\<rparr>\<lparr>heap := heap m2, world := w'\<rparr>"
    by simp
  with m2 have "m2 = m\<lparr>heap := heap m2\<rparr>\<lparr>world := w'\<rparr>"
    by simp
  then show ?thesis
    by (rule same_memoryI)
qed

lemma same_memory_trans: "same_memory m m1 \<Longrightarrow> same_memory m1 m2 \<Longrightarrow> same_memory m m2"
  by (auto simp: same_memory_def)

lemma same_memory_wreg [simp]: "same_memory m (wreg H r v m') \<longleftrightarrow> same_memory m m'"
proof
  assume "same_memory m (wreg H r v m')"
  then obtain w where "m'\<lparr>world := snd (hv_vcpu_write_register H (world m') r v)\<rparr> = m\<lparr>world := w\<rparr>"
    by (auto simp: same_memory_def wreg_def)
  then have "m'\<lparr>world := snd (hv_vcpu_write_register H (world m') r v), world := world m'\<rparr>
      = m\<lparr>world := w, world := world m'\<rparr>"
    by simp
  then have "m' = m\<lparr>world := world m'\<rparr>"
    by simp
  then show "same_memory m m'"
    by (auto simp: same_memory_def)
qed (auto simp: same_memory_def wreg_def)

lemma same_memory_write_vmcs: "same_memory m m' \<Longrightarrow> same_memory m (write_vmcs H f v m')"
  by (auto simp: same_memory_def write_vmcs_def)

lemma same_memoryD:
  assumes "same_memory m m'"
  shows "mem_inv m' \<longleftrightarrow> mem_inv m" and "gbyte m' = gbyte m" and "pml4_gpa m' = pml4_gpa m"
    and "pml4 m' = pml4 m" and "heap m' = heap m" and "mem_regions m' = mem_regions m"
  using assms by (auto simp: same_memory_def mem_inv_def backed_def gbyte_def gpa_to_hva_def fun_eq_iff)

lemma same_memory_counters:
  assumes "same_memory m m'"
  shows "calls m' = calls m" and "failures m' = failures m"
  using assms by (auto simp: same_memory_def)

section \<open>push\<close>

lemma push_spec:
  assumes inv: "mem_inv m" and ok: "hv_regs_ok H rg vc" and len: "length val \<le> INT_MAX"
    and sp: "sp = rg (world m) HV_X86_RSP - of_nat (length val)"
  obtains r m' where "push H m val = Some (r, m')" "mem_inv m'" "same_memory (m\<lparr>heap := heap m'\<rparr>) m'"
    "avail (gbyte m) sp (length val) \<Longrightarrow> r = 0 \<and> rg (world m') = (rg (world m))(HV_X86_RSP := sp)
       \<and> vm_mem_read m' sp (length val) = Some val \<and> gbyte m' = poke (gbyte m) sp val"
    "\<not> avail (gbyte m) sp (length val) \<Longrightarrow> r = -1 \<and> rg (world m') = rg (world m)"
proof -
  let ?n = "span (gbyte m) sp (length val)"
  obtain m1 where w: "vm_mem_write m sp val = Some (?n, m1)" "mem_inv m1"
    "gbyte m1 = poke (gbyte m) sp (take ?n val)"
    using gm.write_law [OF inv len] by blast
  then obtain h where m1: "m1 = m\<lparr>heap := h\<rparr>"
    using vm_mem_write_frame [OF inv len w(1)] by blast
  have sp': "rreg H m HV_X86_RSP - of_nat (length val) = sp"
    using ok sp by (simp add: rreg_ok)
  let ?m2 = "wreg H HV_X86_RSP sp m1"
  have sm: "same_memory (m\<lparr>heap := heap m1\<rparr>) m1" "same_memory (m\<lparr>heap := heap ?m2\<rparr>) ?m2"
    by (simp add: m1) (rule same_memoryI, simp add: m1 wreg_def)
  have m2: "mem_inv ?m2" "gbyte ?m2 = gbyte m1"
    using same_memoryD [of m1 ?m2] w(2) by simp_all
  show thesis
  proof (cases "avail (gbyte m) sp (length val)")
    case True
    then have n1: "?n = length val"
      by (simp add: span_eq_iff)
    note n = n1 avail_take [OF True]
    have err: "fst (hv_vcpu_write_register H (world m1) HV_X86_RSP sp) = 0"
      using ok by (simp add: hv_regs_ok_def)
    then have push: "push H m val = Some (0, ?m2)"
      unfolding push_def Let_def sp' using w(1) n(1)
      by (cases "hv_vcpu_write_register H (world m1) HV_X86_RSP sp") (simp add: wreg_def)
    have "vm_mem_read m1 sp (length val) = Some val"
      using gm.read_after_write [OF inv len True w(1)] by simp
    moreover have "vm_mem_read ?m2 sp (length val) = vm_mem_read m1 sp (length val)"
      using gm.read_law [OF m2(1) len, of sp] gm.read_law [OF w(2) len, of sp] m2(2) by simp
    ultimately show thesis
      using that [OF push m2(1) sm(2)] True ok w(3) n(2) m2(2)
      by (simp add: wreg_ok(1) [OF ok] m1)
  next
    case False
    then have "?n \<noteq> length val"
      by (simp add: span_eq_iff)
    then have push: "push H m val = Some (-1, m1)"
      unfolding push_def Let_def sp' using w(1) by simp
    with that [OF push w(2) sm(1)] False show thesis
      by (simp add: m1)
  qed
qed

end
