(* ===== verification/Emu.thy ===== *)
theory Emu
  imports Registers
begin

text \<open>
  The instructions that \<open>src/src/emu.c\<close> emulates after an exit: RDMSR, WRMSR, MOV to CR0
  and CPUID. Each handler returns \<open>stop\<close> and the new state, and touches no memory.
\<close>

section \<open>Operations\<close>

definition vmx_get_guest_reg :: "'w hv_ops \<Rightarrow> ('w, 'z) machine_scheme \<Rightarrow> int \<Rightarrow> u64" where
  "vmx_get_guest_reg H m ident =
     (if ident = 0 then rreg H m HV_X86_RAX
      else if ident = 1 then rreg H m HV_X86_RCX
      else if ident = 2 then rreg H m HV_X86_RDX
      else if ident = 3 then rreg H m HV_X86_RBX
      else if ident = 4 then rreg H m HV_X86_RSP
      else if ident = 5 then rreg H m HV_X86_RBP
      else if ident = 6 then rreg H m HV_X86_RSI
      else if ident = 7 then rreg H m HV_X86_RDI
      else if ident = 8 then rreg H m HV_X86_R8
      else if ident = 9 then rreg H m HV_X86_R9
      else if ident = 10 then rreg H m HV_X86_R10
      else if ident = 11 then rreg H m HV_X86_R11
      else if ident = 12 then rreg H m HV_X86_R12
      else if ident = 13 then rreg H m HV_X86_R13
      else if ident = 14 then rreg H m HV_X86_R14
      else if ident = 15 then rreg H m HV_X86_R15
      else 0)"

definition emu_rdmsr :: "'w hv_ops \<Rightarrow> ('w, 'z) machine_scheme \<Rightarrow> int \<times> ('w, 'z) machine_scheme" where
  "emu_rdmsr H m =
     (let ecx = ucast (rreg H m HV_X86_RCX) :: u32
      in if ecx = 0xc0000080 then
           let efer = read_vmcs H m VMCS_GUEST_IA32_EFER 0;
               m = wreg H HV_X86_RAX (ucast (ucast efer :: u32)) m;
               m = wreg H HV_X86_RDX (ucast (ucast (drop_bit 32 efer) :: u32)) m;
               m = wreg H HV_X86_RIP (rreg H m HV_X86_RIP + 2) m
           in (0, m)
         else (1, m))"

definition emu_wrmsr :: "'w hv_ops \<Rightarrow> ('w, 'z) machine_scheme \<Rightarrow> int \<times> ('w, 'z) machine_scheme" where
  "emu_wrmsr H m =
     (let tmp = read_reg H m HV_X86_RAX 0;
          eax = ucast tmp :: u32;
          tmp = read_reg H m HV_X86_RCX tmp;
          ecx = ucast tmp :: u32;
          tmp = read_reg H m HV_X86_RDX tmp;
          edx = ucast tmp :: u32
      in if ecx = 0xc0000080 then
           let m = write_vmcs H VMCS_GUEST_IA32_EFER (push_bit 32 (ucast edx) OR ucast eax) m;
               m = wreg H HV_X86_RIP (rreg H m HV_X86_RIP + 2) m
           in (0, m)
         else (1, m))"

definition EFER_SCE :: u64 where "EFER_SCE = 0x000000001"

definition EFER_LME :: u64 where "EFER_LME = 0x000000100"

definition EFER_LMA :: u64 where "EFER_LMA = 0x000000400"

definition EFER_NXE :: u64 where "EFER_NXE = 0x000000800"

definition VM_ENTRY_GUEST_LMA :: u64 where "VM_ENTRY_GUEST_LMA = push_bit 9 1"

text \<open>\<open>efer0\<close> and \<open>entryctls0\<close> are the values of the uninitialised locals.\<close>

definition emu_mov_cr :: "'w hv_ops \<Rightarrow> u64 \<Rightarrow> u64 \<Rightarrow> ('w, 'z) machine_scheme \<Rightarrow> int \<times> ('w, 'z) machine_scheme" where
  "emu_mov_cr H efer0 entryctls0 m =
     (let exit_qualification = read_vmcs H m VMCS_RO_EXIT_QUALIFIC 0
      in if exit_qualification AND 0xf = 0 then
           (if exit_qualification AND 0xf0 \<noteq> 0x00 then (0, m)
            else let regval = vmx_get_guest_reg H m (uint (drop_bit 8 exit_qualification AND 0xf));
                     m = write_vmcs H VMCS_CTRL_CR0_SHADOW regval m;
                     m = wreg H HV_X86_CR0 regval m;
                     m = (if regval AND 0x80000000 \<noteq> 0 then
                            let efer = read_vmcs H m VMCS_GUEST_IA32_EFER efer0
                            in if efer AND EFER_LME \<noteq> 0 then
                                 let efer = efer OR (EFER_LMA OR EFER_NXE OR EFER_SCE);
                                     m = write_vmcs H VMCS_GUEST_IA32_EFER efer m;
                                     entryctls = read_vmcs H m VMCS_CTRL_VMENTRY_CONTROLS entryctls0;
                                     entryctls = entryctls OR VM_ENTRY_GUEST_LMA
                                 in write_vmcs H VMCS_CTRL_VMENTRY_CONTROLS entryctls m
                               else m
                          else m)
                 in (0, wreg H HV_X86_RIP (rreg H m HV_X86_RIP + 3) m))
         else if exit_qualification AND 0xf = 4 then (0, m)
         else if exit_qualification AND 0xf = 8 then (0, m)
         else (0, m))"

definition emu_cpuid :: "'w hv_ops \<Rightarrow> ('w, 'z) machine_scheme \<Rightarrow> int \<times> ('w, 'z) machine_scheme" where
  "emu_cpuid H m =
     (let rax = rreg H m HV_X86_RAX;
          m = (if rax = 0x80000000 then wreg H HV_X86_RAX 0x80000001 m
               else if rax = 0x80000001 then wreg H HV_X86_RDX (push_bit 29 1) m
               else m);
          m = wreg H HV_X86_RIP (rreg H m HV_X86_RIP + 2) m
      in (0, m))"

section \<open>The handlers and memory\<close>

lemma emu_same_memory:
  "same_memory m (snd (emu_rdmsr H m))" "same_memory m (snd (emu_wrmsr H m))"
  "same_memory m (snd (emu_mov_cr H e1 e2 m))" "same_memory m (snd (emu_cpuid H m))"
  by (simp_all add: emu_rdmsr_def emu_wrmsr_def emu_mov_cr_def emu_cpuid_def Let_def
      same_memory_write_vmcs)

section \<open>What the handlers compute\<close>

text \<open>EDX:EAX of a 64-bit value and back.\<close>

lemma split_edx_eax:
  "(push_bit 32 (ucast (ucast (drop_bit 32 v) :: u32)) OR ucast (ucast v :: u32) :: u64) = v" for v :: u64
  by (rule bit_word_eqI) (auto simp: bit_simps)

lemma join_edx_eax:
  "ucast (push_bit 32 (ucast d) OR ucast a :: u64) = a"
  "ucast (drop_bit 32 (push_bit 32 (ucast d) OR ucast a :: u64)) = d" for a d :: u32
  by (rule bit_word_eqI; auto simp: bit_simps dest: bit_imp_le_length)+

lemma vmx_get_guest_reg_ok:
  assumes "hv_regs_ok H rg vc"
  shows "vmx_get_guest_reg H m 0 = rg (world m) HV_X86_RAX"
    and "vmx_get_guest_reg H m 3 = rg (world m) HV_X86_RBX"
  using assms by (simp_all add: vmx_get_guest_reg_def rreg_ok)

text \<open>The other handlers are given by their effect on the register file.\<close>

lemma emu_rdmsr_regs:
  assumes "hv_regs_ok H rg vc" and "ucast (rg (world m) HV_X86_RCX) = (0xc0000080 :: u32)"
    and "efer = vc (world m) VMCS_GUEST_IA32_EFER"
  shows "fst (emu_rdmsr H m) = 0"
    and "rg (world (snd (emu_rdmsr H m))) = (rg (world m))(HV_X86_RAX := ucast (ucast efer :: u32),
      HV_X86_RDX := ucast (ucast (drop_bit 32 efer) :: u32), HV_X86_RIP := rg (world m) HV_X86_RIP + 2)"
    and "vc (world (snd (emu_rdmsr H m))) f = vc (world m) f"
  using assms by (simp_all add: emu_rdmsr_def Let_def hv_ok_simps fun_eq_iff)

lemma emu_wrmsr_regs:
  assumes "hv_regs_ok H rg vc" and "ucast (rg (world m) HV_X86_RCX) = (0xc0000080 :: u32)"
  shows "fst (emu_wrmsr H m) = 0"
    and "rg (world (snd (emu_wrmsr H m))) =
      (rg (world m))(HV_X86_RIP := rg (world m) HV_X86_RIP + 2)"
    and "vc (world (snd (emu_wrmsr H m))) VMCS_GUEST_IA32_EFER =
      push_bit 32 (ucast (ucast (rg (world m) HV_X86_RDX) :: u32)) OR ucast (ucast (rg (world m) HV_X86_RAX) :: u32)"
  using assms by (simp_all add: emu_wrmsr_def Let_def hv_ok_simps read_only_def fun_eq_iff)

lemma emu_cpuid_regs:
  assumes "hv_regs_ok H rg vc"
  shows "emu_cpuid H m = (0, snd (emu_cpuid H m))"
    and "rg (world (snd (emu_cpuid H m))) = (if rg (world m) HV_X86_RAX = 0x80000000
        then (rg (world m))(HV_X86_RAX := 0x80000001)
        else if rg (world m) HV_X86_RAX = 0x80000001 then (rg (world m))(HV_X86_RDX := 0x20000000)
        else rg (world m))(HV_X86_RIP := rg (world m) HV_X86_RIP + 2)"
  using assms by (simp_all add: emu_cpuid_def Let_def hv_ok_simps push_bit_eq_mult fun_eq_iff)

end
