(* ===== verification/Plugin.thy ===== *)
theory Plugin
  imports Registers
begin

text \<open>
  \<open>src/src/plugin.c\<close> and \<open>src/include/hvexec_plugin.h\<close>: the table of callbacks that a
  plugin fills in, and \<open>load_plugin\<close>. The dynamic loader and the code of the plugin are
  parameters. This theory also holds the state that the rest of the program shares: the
  machine, the operating system seen through the calls of the C library, and the statics
  of \<open>plugin.c\<close> and \<open>emu_syscall.c\<close>.
\<close>

section \<open>The state of the process\<close>

text \<open>
  Code outside the program sees an opaque state \<open>'o\<close> and the memory of the process. A
  callback returns its result, the new value of \<open>*ret\<close> given the old one, and the new
  state; C passes it \<open>int\<close>s as 32-bit and pointers and sizes as 64-bit values.
\<close>

type_synonym 'o host = "'o \<times> (u64 \<rightharpoonup> u8)"

record 'o plugin_ops =
  cb_write :: "('o host \<Rightarrow> u32 \<Rightarrow> u64 \<Rightarrow> u64 \<Rightarrow> u64 \<Rightarrow> u32 \<times> u64 \<times> 'o host) option"
  cb_read :: "('o host \<Rightarrow> u32 \<Rightarrow> u64 \<Rightarrow> u64 \<Rightarrow> u64 \<Rightarrow> u32 \<times> u64 \<times> 'o host) option"
  cb_open :: "('o host \<Rightarrow> u64 \<Rightarrow> u32 \<Rightarrow> u32 \<Rightarrow> u32 \<Rightarrow> u32 \<times> u32 \<times> 'o host) option"
  cb_close :: "('o host \<Rightarrow> u32 \<Rightarrow> u32 \<Rightarrow> u32 \<times> u32 \<times> 'o host) option"

record ('w, 'o) process = "'w machine" +
  os :: 'o
  plugin_table :: "'o plugin_ops"
  syscall_interactive :: bool

definition host :: "('w, 'o, 'z) process_scheme \<Rightarrow> 'o host" where
  "host m = (os m, heap m)"

definition set_host :: "'o host \<Rightarrow> ('w, 'o, 'z) process_scheme \<Rightarrow> ('w, 'o, 'z) process_scheme" where
  "set_host h m = m\<lparr>os := fst h, heap := snd h\<rparr>"

section \<open>Operations\<close>

text \<open>\<open>static struct plugin_ops _ops = {0}\<close>\<close>

definition no_plugin :: "'o plugin_ops" where
  "no_plugin = \<lparr>cb_write = None, cb_read = None, cb_open = None, cb_close = None\<rparr>"

definition get_plugin_ops :: "('w, 'o, 'z) process_scheme \<Rightarrow> 'o plugin_ops" where
  "get_plugin_ops m = plugin_table m"

text \<open>\<open>dlopen\<close> returns 0 for failure; \<open>dlsym\<close> looks up \<open>plugin_init\<close>.\<close>

record 'o dl_ops =
  dlopen :: "'o host \<Rightarrow> string \<Rightarrow> u64 \<times> 'o host"
  dlsym :: "'o host \<Rightarrow> u64 \<Rightarrow> ('o host \<Rightarrow> 'o plugin_ops \<Rightarrow> u32 \<times> 'o plugin_ops \<times> 'o host) option"
  dlclose :: "'o host \<Rightarrow> u64 \<Rightarrow> 'o host"

definition load_plugin :: "'o dl_ops \<Rightarrow> ('w, 'o, 'z) process_scheme \<Rightarrow> string option \<Rightarrow>
    int \<times> ('w, 'o, 'z) process_scheme" where
  "load_plugin D m path =
     (case path of
        None \<Rightarrow> (-1, m)
      | Some p \<Rightarrow>
          let (plugin, h) = dlopen D (host m) p; m = set_host h m
          in if plugin = 0 then (-1, m)
             else case dlsym D (host m) plugin of
               None \<Rightarrow> (-1, set_host (dlclose D (host m) plugin) m)
             | Some plugin_init \<Rightarrow>
                 let (r, ops, h) = plugin_init (host m) (plugin_table m);
                     m = (set_host h m)\<lparr>plugin_table := ops\<rparr>
                 in if r \<noteq> 0 then (-1, set_host (dlclose D (host m) plugin) m)
                    else (0, m))"

section \<open>Lemmas\<close>

lemma host_simps [simp]:
  "host (set_host h m) = h" "plugin_table (set_host h m) = plugin_table m"
  "world (set_host h m) = world m" "mem_regions (set_host h m) = mem_regions m"
  "pml4_gpa (set_host h m) = pml4_gpa m" "pml4 (set_host h m) = pml4 m"
  "heap (set_host h m) = snd h" "os (set_host h m) = fst h"
  "syscall_interactive (set_host h m) = syscall_interactive m"
  by (simp_all add: host_def set_host_def)

end
