(* ===== verification/EmuSyscall.thy ===== *)
theory EmuSyscall
  imports Plugin VirtInit
begin

text \<open>
  \<open>src/src/emu_syscall.c\<close>: the guest's \<open>write\<close>, \<open>open\<close>, \<open>close\<close> and \<open>read\<close> calls,
  handed to a plugin or to the operating system, which is a parameter.
\<close>

section \<open>Operations\<close>

record 'o os_ops =
  os_getchar :: "'o host \<Rightarrow> u32 \<times> 'o host"
  os_write :: "'o host \<Rightarrow> u32 \<Rightarrow> u64 \<Rightarrow> u64 \<Rightarrow> u64 \<times> 'o host"
  os_read :: "'o host \<Rightarrow> u32 \<Rightarrow> u64 \<Rightarrow> u64 \<Rightarrow> u64 \<times> 'o host"
  os_open :: "'o host \<Rightarrow> u64 \<Rightarrow> u32 \<Rightarrow> u64 \<Rightarrow> u32 \<times> 'o host"
  os_close :: "'o host \<Rightarrow> u32 \<Rightarrow> u32 \<times> 'o host"

text \<open>The uninitialised locals met while one exit is handled.\<close>

record locals =
  u_verify :: "nat \<Rightarrow> u64"
  u_entry :: u64
  u_ret :: u64
  u_ret32 :: u32
  u_efer :: u64
  u_entryctls :: u64

definition SYSCALL_READ :: u64 where "SYSCALL_READ = 0x2000003"

definition SYSCALL_WRITE :: u64 where "SYSCALL_WRITE = 0x2000004"

definition SYSCALL_OPEN :: u64 where "SYSCALL_OPEN = 0x2000005"

definition SYSCALL_CLOSE :: u64 where "SYSCALL_CLOSE = 0x2000006"

text \<open>The prompt of interactive mode: whether the user typed \<open>q\<close>.\<close>

definition ask_quit :: "'o os_ops \<Rightarrow> ('w, 'o, 'z) process_scheme \<Rightarrow> bool \<times> ('w, 'o, 'z) process_scheme" where
  "ask_quit S m =
     (if syscall_interactive m
      then let (c, h) = os_getchar S (host m); input = ucast c :: u8
           in (input = 0x71, set_host h m)
      else (False, m))"

text \<open>A callback that is null or returns nonzero leaves the call to the system.\<close>

definition call_or :: "('o host \<Rightarrow> u32 \<times> 'r \<times> 'o host) option \<Rightarrow> ('o host \<Rightarrow> 'r \<times> 'o host) \<Rightarrow>
    ('w, 'o, 'z) process_scheme \<Rightarrow> 'r \<times> ('w, 'o, 'z) process_scheme" where
  "call_or cb system m =
     (case cb of
        None \<Rightarrow> let (ret, h) = system (host m) in (ret, set_host h m)
      | Some f \<Rightarrow>
          let (rc, ret, h) = f (host m); m = set_host h m
          in if rc \<noteq> 0 then let (ret, h) = system (host m) in (ret, set_host h m)
             else (ret, m))"

definition emu_syscall_write :: "'w hv_ops \<Rightarrow> 'o os_ops \<Rightarrow> locals \<Rightarrow> ('w, 'o, 'z) process_scheme \<Rightarrow>
    (int \<times> ('w, 'o, 'z) process_scheme) option" where
  "emu_syscall_write H S u m = do {
     let fildes = (ucast (rreg H m HV_X86_RDI) :: u32);
     let buf_gva = rreg H m HV_X86_RSI;
     let nbyte = rreg H m HV_X86_RDX;
     v \<leftarrow> vm_mem_verify (u_verify u) m buf_gva nbyte;
     if v \<noteq> 0 then Some (-1, m)
     else do {
       gpa \<leftarrow> gva_to_gpa (u_entry u) m buf_gva;
       let buf = gpa_to_hva m gpa;
       let (quit, m) = ask_quit S m;
       if quit then Some (1, m)
       else let (ret, m) = call_or
                  (map_option (\<lambda>f h. f h fildes buf nbyte (u_ret u)) (cb_write (get_plugin_ops m)))
                  (\<lambda>h. os_write S h fildes buf nbyte) m
            in Some (0, wreg H HV_X86_RAX ret m)
     }
   }"

definition emu_syscall_open :: "'w hv_ops \<Rightarrow> 'o os_ops \<Rightarrow> locals \<Rightarrow> ('w, 'o, 'z) process_scheme \<Rightarrow>
    (int \<times> ('w, 'o, 'z) process_scheme) option" where
  "emu_syscall_open H S u m = do {
     let path_gva = rreg H m HV_X86_RDI;
     gpa \<leftarrow> gva_to_gpa (u_entry u) m path_gva;
     let path = gpa_to_hva m gpa;
     let flags = rreg H m HV_X86_RSI;
     let mode = rreg H m HV_X86_RDX;
     let (quit, m) = ask_quit S m;
     if quit then Some (1, m)
     else let (ret, m) = call_or
                (map_option (\<lambda>f h. f h path (ucast flags) (ucast mode) (u_ret32 u)) (cb_open (get_plugin_ops m)))
                (\<lambda>h. os_open S h path (ucast flags) mode) m
          in Some (0, wreg H HV_X86_RAX (scast ret) m)
   }"

definition emu_syscall_close :: "'w hv_ops \<Rightarrow> 'o os_ops \<Rightarrow> locals \<Rightarrow> ('w, 'o, 'z) process_scheme \<Rightarrow>
    (int \<times> ('w, 'o, 'z) process_scheme) option" where
  "emu_syscall_close H S u m =
     (let fd = rreg H m HV_X86_RDI;
          (quit, m) = ask_quit S m
      in if quit then Some (1, m)
         else let (ret, m) = call_or
                    (map_option (\<lambda>f h. f h (ucast fd) (u_ret32 u)) (cb_close (get_plugin_ops m)))
                    (\<lambda>h. os_close S h (ucast fd)) m
              in Some (0, wreg H HV_X86_RAX (scast ret) m))"

definition emu_syscall_read :: "'w hv_ops \<Rightarrow> 'o os_ops \<Rightarrow> locals \<Rightarrow> ('w, 'o, 'z) process_scheme \<Rightarrow>
    (int \<times> ('w, 'o, 'z) process_scheme) option" where
  "emu_syscall_read H S u m = do {
     let fildes = (ucast (rreg H m HV_X86_RDI) :: u32);
     let buf_gva = rreg H m HV_X86_RSI;
     let nbyte = rreg H m HV_X86_RDX;
     v \<leftarrow> vm_mem_verify (u_verify u) m buf_gva nbyte;
     if v \<noteq> 0 then Some (-1, m)
     else do {
       gpa \<leftarrow> gva_to_gpa (u_entry u) m buf_gva;
       let buf = gpa_to_hva m gpa;
       let (quit, m) = ask_quit S m;
       if quit then Some (1, m)
       else let (ret, m) = call_or
                  (map_option (\<lambda>f h. f h fildes buf nbyte (u_ret u)) (cb_read (get_plugin_ops m)))
                  (\<lambda>h. os_read S h fildes buf nbyte) m
            in Some (0, wreg H HV_X86_RAX ret m)
     }
   }"

definition emu_syscall :: "'w hv_ops \<Rightarrow> 'o os_ops \<Rightarrow> locals \<Rightarrow> ('w, 'o, 'z) process_scheme \<Rightarrow>
    (int \<times> ('w, 'o, 'z) process_scheme) option" where
  "emu_syscall H S u m =
     (let syscall_code = rreg H m HV_X86_RAX
      in if syscall_code = SYSCALL_WRITE then emu_syscall_write H S u m
         else if syscall_code = SYSCALL_OPEN then emu_syscall_open H S u m
         else if syscall_code = SYSCALL_CLOSE then emu_syscall_close H S u m
         else if syscall_code = SYSCALL_READ then emu_syscall_read H S u m
         else Some (-1, m))"

section \<open>The behaviour of the system and the plugin\<close>

text \<open>
  Memory is allocated as before and changed in \<open>n\<close> bytes at \<open>p\<close> at most. This is what
  the C library documents: \<open>read\<close> stores into its buffer only and faults on memory that is
  not there, the other calls store nothing. A plugin keeps the same contract.
\<close>

definition touches :: "u64 \<Rightarrow> nat \<Rightarrow> 'o host \<Rightarrow> 'o host \<Rightarrow> bool" where
  "touches p n h h' \<longleftrightarrow> dom (snd h') = dom (snd h) \<and> (\<forall>a. in_block p n a \<or> snd h' a = snd h a)"

definition os_ok :: "'o os_ops \<Rightarrow> bool" where
  "os_ok S \<longleftrightarrow> (\<forall>h. touches 0 0 h (snd (os_getchar S h)))
     \<and> (\<forall>h fd p n. touches 0 0 h (snd (os_write S h fd p n)))
     \<and> (\<forall>h fd p n. touches p (unat n) h (snd (os_read S h fd p n)))
     \<and> (\<forall>h p flags mode. touches 0 0 h (snd (os_open S h p flags mode)))
     \<and> (\<forall>h fd. touches 0 0 h (snd (os_close S h fd)))"

definition plugin_ok :: "'o plugin_ops \<Rightarrow> bool" where
  "plugin_ok P \<longleftrightarrow>
     (\<forall>f h fd p n old. cb_write P = Some f \<longrightarrow> touches 0 0 h (snd (snd (f h fd p n old))))
   \<and> (\<forall>f h fd p n old. cb_read P = Some f \<longrightarrow> touches p (unat n) h (snd (snd (f h fd p n old))))
   \<and> (\<forall>f h p flags mode old. cb_open P = Some f \<longrightarrow> touches 0 0 h (snd (snd (f h p flags mode old))))
   \<and> (\<forall>f h fd old. cb_close P = Some f \<longrightarrow> touches 0 0 h (snd (snd (f h fd old))))"

lemma os_okD:
  assumes "os_ok S"
  shows "touches 0 0 h (snd (os_getchar S h))" and "touches 0 0 h (snd (os_write S h fd p n))"
    and "touches p (unat n) h (snd (os_read S h fd p n))"
    and "touches 0 0 h (snd (os_open S h p flags mode))" and "touches 0 0 h (snd (os_close S h fd))"
  using assms unfolding os_ok_def by blast+

lemma plugin_okD:
  assumes "plugin_ok P"
  shows "cb_write P = Some f \<Longrightarrow> touches 0 0 h (snd (snd (f h fd p n old)))"
    and "cb_read P = Some f \<Longrightarrow> touches p (unat n) h (snd (snd (f h fd p n old)))"
    and "cb_open P = Some f' \<Longrightarrow> touches 0 0 h (snd (snd (f' h p flags md old')))"
    and "cb_close P = Some f'' \<Longrightarrow> touches 0 0 h (snd (snd (f'' h fd old')))"
  using assms unfolding plugin_ok_def by (auto simp del: split_paired_All)

lemma touches_refl [simp]: "touches p n h h"
  by (simp add: touches_def)

lemma touches_trans: "touches p n h1 h2 \<Longrightarrow> touches p n h2 h3 \<Longrightarrow> touches p n h1 h3"
  unfolding touches_def by metis

lemma touches_none: "touches 0 0 h h' \<Longrightarrow> touches p n h h'"
  by (simp add: touches_def in_block_def)

section \<open>The effect of a call\<close>

definition effect :: "u64 \<Rightarrow> nat \<Rightarrow> ('w, 'o, 'z) process_scheme \<Rightarrow> ('w, 'o, 'z) process_scheme \<Rightarrow> bool" where
  "effect p n m m' \<longleftrightarrow> touches p n (host m) (host m') \<and> mem_regions m' = mem_regions m
     \<and> pml4 m' = pml4 m \<and> pml4_gpa m' = pml4_gpa m \<and> plugin_table m' = plugin_table m"

lemma effect_refl [simp]: "effect p n m m"
  by (simp add: effect_def)

lemma effect_trans: "effect p n m m1 \<Longrightarrow> effect p n m1 m2 \<Longrightarrow> effect p n m m2"
  by (auto simp: effect_def intro: touches_trans)

lemma effect_none: "effect 0 0 m m' \<Longrightarrow> effect p n m m'"
  by (auto simp: effect_def intro: touches_none)

lemma effect_set_host: "touches p n (host m) h \<Longrightarrow> effect p n m (set_host h m)"
  by (simp add: effect_def)

lemma effect_wreg: "effect p n m (wreg H r v m') \<longleftrightarrow> effect p n m m'"
  by (simp add: effect_def wreg_def host_def)

lemma effect_mem_inv: "effect p n m m' \<Longrightarrow> mem_inv m \<Longrightarrow> mem_inv m'"
  by (auto simp: effect_def touches_def host_def mem_inv_def backed_def)

lemma effect_gpa_to_hva: "effect p n m m' \<Longrightarrow> gpa_to_hva m' = gpa_to_hva m"
  by (simp add: effect_def gpa_to_hva_def fun_eq_iff)

lemma ask_quit_effect: "os_ok S \<Longrightarrow> effect 0 0 m (snd (ask_quit S m))"
  unfolding ask_quit_def Let_def split_beta by (simp add: os_okD effect_set_host)

lemma call_or_effect:
  assumes cb: "\<And>f h. cb = Some f \<Longrightarrow> touches p n h (snd (snd (f h)))"
    and sys: "\<And>h. touches p n h (snd (sys h))"
  shows "effect p n m (snd (call_or cb sys m))"
proof (cases cb)
  case None
  then show ?thesis
    using sys by (simp add: call_or_def split_beta effect_set_host)
next
  case (Some f)
  let ?m = "set_host (snd (snd (f (host m)))) m"
  have "effect p n m ?m"
    using cb [OF Some] by (rule effect_set_host)
  moreover have "effect p n ?m (set_host (snd (sys (host ?m))) ?m)"
    using sys by (rule effect_set_host)
  ultimately show ?thesis
    using Some by (auto simp: call_or_def split_beta Let_def intro: effect_trans)
qed

lemma gva_to_gpa_total: "mem_inv m \<Longrightarrow> \<exists>g. gva_to_gpa e0 m gva = Some g"
proof -
  assume inv: "mem_inv m"
  let ?v = "decode_gva gva"
  obtain e1 where e1: "read_u64 m (pml4_gpa m + ucast (pml4_idx ?v)) e0 = Some e1"
    using read_u64_total [OF inv] by blast
  obtain e2 where e2: "read_u64 m ((e1 AND 0xFFFFFFFFFF000) + ucast (pdpt_idx ?v)) e1 = Some e2"
    using read_u64_total [OF inv] by blast
  obtain e3 where e3: "read_u64 m ((e2 AND 0xFFFFFFFFFF000) + ucast (pd_idx ?v)) e2 = Some e3"
    using read_u64_total [OF inv] by blast
  obtain e4 where e4: "read_u64 m ((e3 AND 0xFFFFFFFFFF000) + ucast (pt_idx ?v)) e3 = Some e4"
    using read_u64_total [OF inv] by blast
  show ?thesis
    unfolding gva_to_gpa_def Let_def using e1 e2 e3 e4 by simp
qed

lemma vm_mem_verify_loop_total: "mem_inv m \<Longrightarrow> \<exists>v. vm_mem_verify_loop u m gva n = Some v \<and> (v = 0 \<or> v = -1)"
proof (induction n arbitrary: gva)
  case 0
  then show ?case by simp
next
  case (Suc n)
  obtain g where "gva_to_gpa (u n) m gva = Some g"
    using gva_to_gpa_total [OF Suc.prems] by blast
  with Suc.IH [OF Suc.prems, of "gva + 1"] show ?case by simp
qed

lemma vm_mem_verify_total: "mem_inv m \<Longrightarrow> \<exists>v. vm_mem_verify u m gva n = Some v \<and> (v = 0 \<or> v = -1)"
  unfolding vm_mem_verify_def by (rule vm_mem_verify_loop_total)

text \<open>Every call returns -1, 0 or 1; only \<open>read\<close> changes memory, in its host buffer.\<close>

definition returns :: "u64 \<Rightarrow> nat \<Rightarrow> ('w, 'o, 'z) process_scheme \<Rightarrow>
    (int \<times> ('w, 'o, 'z) process_scheme) option \<Rightarrow> bool" where
  "returns p n m res \<longleftrightarrow> (\<exists>r m'. res = Some (r, m') \<and> r \<in> {-1, 0, 1} \<and> effect p n m m')"

lemma returns_none: "returns 0 0 m res \<Longrightarrow> returns p n m res"
  unfolding returns_def using effect_none by blast

lemma finish_call:
  assumes S: "os_ok S" and call: "\<And>m1. plugin_table m1 = plugin_table m \<Longrightarrow> effect p n m1 (snd (call m1))"
  shows "returns p n m (let (quit, m1) = ask_quit S m in if quit then Some (1, m1)
    else let (ret, m2) = call m1 in Some (0, wreg H HV_X86_RAX (conv ret) m2))"
proof -
  obtain quit m1 where q: "ask_quit S m = (quit, m1)" by fastforce
  obtain ret m2 where c: "call m1 = (ret, m2)" by fastforce
  have e1: "effect p n m m1" and "plugin_table m1 = plugin_table m"
    using ask_quit_effect [OF S, of m] q effect_none [of m m1] by (simp_all add: effect_def)
  then have "effect p n m m2"
    using call [of m1] c by (auto intro: effect_trans)
  with q c e1 show ?thesis
    by (simp add: returns_def effect_wreg)
qed

lemma emu_syscall_write_returns:
  assumes "mem_inv m" and S: "os_ok S" and P: "plugin_ok (plugin_table m)"
  shows "returns 0 0 m (emu_syscall_write H S u m)"
proof -
  obtain v g where "vm_mem_verify (u_verify u) m (rreg H m HV_X86_RSI) (rreg H m HV_X86_RDX) = Some v"
    "v = 0 \<or> v = -1" "gva_to_gpa (u_entry u) m (rreg H m HV_X86_RSI) = Some g"
    using vm_mem_verify_total [OF assms(1)] gva_to_gpa_total [OF assms(1)] by metis
  moreover have "returns 0 0 m (let (quit, m1) = ask_quit S m in if quit then Some (1, m1)
    else let (ret, m2) = call_or (map_option (\<lambda>f h. f h fd p n r) (cb_write (get_plugin_ops m1)))
      (\<lambda>h. os_write S h fd p n) m1 in Some (0, wreg H HV_X86_RAX ret m2))" for fd p n r
    using S P by (intro finish_call call_or_effect) (auto simp: get_plugin_ops_def plugin_okD os_okD)
  ultimately show ?thesis
    unfolding emu_syscall_write_def Let_def by (auto simp: returns_def)
qed

lemma emu_syscall_read_returns:
  assumes "mem_inv m" and S: "os_ok S" and P: "plugin_ok (plugin_table m)"
    and g: "gva_to_gpa (u_entry u) m (rreg H m HV_X86_RSI) = Some g"
  shows "returns (gpa_to_hva m g) (unat (rreg H m HV_X86_RDX)) m (emu_syscall_read H S u m)"
proof -
  obtain v where "vm_mem_verify (u_verify u) m (rreg H m HV_X86_RSI) (rreg H m HV_X86_RDX) = Some v"
    "v = 0 \<or> v = -1"
    using vm_mem_verify_total [OF assms(1)] by metis
  moreover have "returns p (unat n) m (let (quit, m1) = ask_quit S m in if quit then Some (1, m1)
    else let (ret, m2) = call_or (map_option (\<lambda>f h. f h fd p n r) (cb_read (get_plugin_ops m1)))
      (\<lambda>h. os_read S h fd p n) m1 in Some (0, wreg H HV_X86_RAX ret m2))" for fd p n r
    using S P by (intro finish_call call_or_effect) (auto simp: get_plugin_ops_def plugin_okD os_okD)
  ultimately show ?thesis
    unfolding emu_syscall_read_def Let_def using g by (auto simp: returns_def)
qed

lemma emu_syscall_open_returns:
  assumes "mem_inv m" and S: "os_ok S" and P: "plugin_ok (plugin_table m)"
  shows "returns 0 0 m (emu_syscall_open H S u m)"
proof -
  obtain g where "gva_to_gpa (u_entry u) m (rreg H m HV_X86_RDI) = Some g"
    using gva_to_gpa_total [OF assms(1)] by metis
  moreover have "returns 0 0 m (let (quit, m1) = ask_quit S m in if quit then Some (1, m1)
    else let (ret, m2) = call_or (map_option (\<lambda>f h. f h p fl md r) (cb_open (get_plugin_ops m1)))
      (\<lambda>h. os_open S h p fl md') m1 in Some (0, wreg H HV_X86_RAX (scast ret) m2))" for p fl md md' r
    using S P by (intro finish_call call_or_effect) (auto simp: get_plugin_ops_def plugin_okD os_okD)
  ultimately show ?thesis
    unfolding emu_syscall_open_def Let_def by simp
qed

lemma emu_syscall_close_returns:
  assumes S: "os_ok S" and P: "plugin_ok (plugin_table m)"
  shows "returns 0 0 m (emu_syscall_close H S u m)"
  unfolding emu_syscall_close_def Let_def [of "rreg H m HV_X86_RDI"]
  using S P by (intro finish_call call_or_effect) (auto simp: get_plugin_ops_def plugin_okD os_okD)

text \<open>The dispatcher: \<open>g\<close> is where the second argument points.\<close>

lemma emu_syscall_returns:
  assumes "mem_inv m" "os_ok S" "plugin_ok (plugin_table m)"
    and "gva_to_gpa (u_entry u) m (rreg H m HV_X86_RSI) = Some g"
  shows "returns (gpa_to_hva m g) (unat (rreg H m HV_X86_RDX)) m (emu_syscall H S u m)"
proof -
  define p n where "p = gpa_to_hva m g" and "n = unat (rreg H m HV_X86_RDX)"
  have "returns p n m (emu_syscall_write H S u m)" "returns p n m (emu_syscall_open H S u m)"
    "returns p n m (emu_syscall_close H S u m)" "returns p n m (emu_syscall_read H S u m)"
    "returns p n m (Some (-1, m))"
    using emu_syscall_write_returns [OF assms(1-3)] emu_syscall_read_returns [OF assms]
      emu_syscall_open_returns [OF assms(1-3)] emu_syscall_close_returns [OF assms(2,3)]
    by (simp_all add: returns_none p_def n_def) (simp add: returns_def)
  then have "returns p n m (emu_syscall H S u m)"
    unfolding emu_syscall_def Let_def by (simp only: split: if_split) simp
  then show ?thesis
    by (simp only: p_def n_def)
qed

end
