(* ===== verification/Vcpu.thy ===== *)
theory Vcpu
  imports Emu EmuSyscall
begin

text \<open>
  \<open>src/src/vcpu.c\<close>: the initial state of the virtual CPU, the register dump, and the
  loop that runs the guest and handles its exits. One iteration is \<open>vcpu_step\<close>;
  \<open>vcpu_run\<close> repeats it for a given number of iterations, since a guest may run forever.
\<close>

section \<open>vcpu_setup_ia32\<close>

text \<open>The writes to the control structure before the descriptor table, in order.\<close>

definition vmcs_setup :: "(vmcs_field \<times> u64) list" where
  "vmcs_setup = [
     (VMCS_CTRL_PIN_BASED, 0x000000000000003f),
     (VMCS_CTRL_CPU_BASED, 0x00000000b5186dfa),
     (VMCS_CTRL_CPU_BASED2, 0x00000000000000aa),
     (VMCS_CTRL_VMENTRY_CONTROLS, 0x00000000000091ff),
     (VMCS_CTRL_VMEXIT_CONTROLS, 0x0000000000236fff),
     (VMCS_CTRL_EXC_BITMAP, 0x0000000000040000),
     (VMCS_CTRL_CR0_MASK, 0x00000000e0000031),
     (VMCS_CTRL_CR0_SHADOW, 0x0000000000000021),
     (VMCS_GUEST_CR0, 0x0000000000000031),
     (VMCS_GUEST_CR3, 0x0000000000000000),
     (VMCS_CTRL_CR4_MASK, 0x0000000000002000),
     (VMCS_CTRL_CR4_SHADOW, 0x0000000000000000),
     (VMCS_GUEST_CR4, 0x0000000000002000),
     (VMCS_GUEST_CS, 0x0000000000000010),
     (VMCS_GUEST_CS_BASE, 0x0000000000000000),
     (VMCS_GUEST_CS_LIMIT, 0x00000000ffffffff),
     (VMCS_GUEST_CS_AR, 0x000000000000c09b),
     (VMCS_GUEST_DS, 0x0000000000000018),
     (VMCS_GUEST_DS_BASE, 0x0000000000000000),
     (VMCS_GUEST_DS_LIMIT, 0x00000000ffffffff),
     (VMCS_GUEST_DS_AR, 0x000000000000c093),
     (VMCS_GUEST_ES, 0x0000000000000018),
     (VMCS_GUEST_ES_BASE, 0x00000000ffffffff),
     (VMCS_GUEST_ES_LIMIT, 0x00000000ffffffff),
     (VMCS_GUEST_ES_AR, 0x000000000000c093),
     (VMCS_GUEST_FS, 0x0000000000000000),
     (VMCS_GUEST_FS_BASE, 0x0000000000000000),
     (VMCS_GUEST_FS_LIMIT, 0x000000000000ffff),
     (VMCS_GUEST_FS_AR, 0x0000000000000093),
     (VMCS_GUEST_GS, 0x0000000000000000),
     (VMCS_GUEST_GS_BASE, 0x0000000000000000),
     (VMCS_GUEST_GS_LIMIT, 0x000000000000ffff),
     (VMCS_GUEST_GS_AR, 0x0000000000000093),
     (VMCS_GUEST_SS, 0x0000000000000018),
     (VMCS_GUEST_SS_BASE, 0x0000000000000000),
     (VMCS_GUEST_SS_LIMIT, 0x00000000ffffffff),
     (VMCS_GUEST_SS_AR, 0x000000000000c093),
     (VMCS_GUEST_TR, 0x0000000000000000),
     (VMCS_GUEST_TR_BASE, 0x0000000000000000),
     (VMCS_GUEST_TR_LIMIT, 0x0000000000000000),
     (VMCS_GUEST_TR_AR, 0x000000000000008b),
     (VMCS_GUEST_LDTR, 0x0000000000000000),
     (VMCS_GUEST_LDTR_BASE, 0x0000000000000000),
     (VMCS_GUEST_LDTR_LIMIT, 0x000000000000ffff),
     (VMCS_GUEST_LDTR_AR, 0x0000000000000082)]"

text \<open>The writes after it; \<open>gdt_gpa\<close> is 0.\<close>

definition gdt_gpa :: u64 where "gdt_gpa = 0"

definition vmcs_setup_tables :: "(vmcs_field \<times> u64) list" where
  "vmcs_setup_tables = [
     (VMCS_GUEST_GDTR_BASE, gdt_gpa),
     (VMCS_GUEST_GDTR_LIMIT, 0x000000000000001f),
     (VMCS_GUEST_IDTR_BASE, 0x0000000000000000),
     (VMCS_GUEST_IDTR_LIMIT, 0x000000000000ffff),
     (VMCS_GUEST_IA32_EFER, 0x0000000000000000)]"

text \<open>The four descriptors, written with one \<open>vm_mem_write\<close> each.\<close>

definition gdt_entries :: "u64 list" where
  "gdt_entries = [0x0000000000000000, 0x0000000000000000, 0x00cf9a000000ffff, 0x00cf92000000ffff]"

fun write_words :: "('w, 'z) machine_scheme \<Rightarrow> u64 \<Rightarrow> u64 list \<Rightarrow> ('w, 'z) machine_scheme option" where
  "write_words m gpa [] = Some m"
| "write_words m gpa (v # vs) = do {
     (n, m) \<leftarrow> vm_mem_write m gpa (bytes64 v);
     write_words m (gpa + 8) vs
   }"

text \<open>\<open>MSR_LSTAR\<close>, \<open>MSR_CSTAR\<close>, \<open>MSR_STAR\<close>, \<open>MSR_SF_MASK\<close>, \<open>MSR_KGSBASE\<close>, \<open>MSR_GSBASE\<close>,
  \<open>MSR_FSBASE\<close>, \<open>MSR_SYSENTER_CS_MSR\<close>, \<open>MSR_SYSENTER_ESP_MSR\<close>, \<open>MSR_SYSENTER_EIP_MSR\<close>,
  \<open>MSR_TSC\<close>, \<open>MSR_IA32_TSC_AUX\<close>, in the order of the condition.\<close>

definition native_msrs :: "u32 list" where
  "native_msrs = [0xc0000082, 0xc0000083, 0xc0000081, 0xc0000084, 0xc0000102, 0xc0000101,
     0xc0000100, 0x174, 0x175, 0x176, 0x010, 0xc0000103]"

text \<open>The chain of \<open>||\<close>: the first failure ends it.\<close>

fun enable_native_msrs :: "'w hv_ops \<Rightarrow> u32 list \<Rightarrow> ('w, 'z) machine_scheme \<Rightarrow> bool \<times> ('w, 'z) machine_scheme" where
  "enable_native_msrs H [] m = (False, m)"
| "enable_native_msrs H (msr # msrs) m =
     (let (err, w) = hv_vcpu_enable_native_msr H (world m) msr True; m = m\<lparr>world := w\<rparr>
      in if err \<noteq> 0 then (True, m) else enable_native_msrs H msrs m)"

definition reg_setup :: "(hv_x86_reg \<times> u64) list" where
  "reg_setup = [
     (HV_X86_RIP, CONF_START_ADDR),
     (HV_X86_RFLAGS, 0x0000000000000002),
     (HV_X86_RAX, 0),
     (HV_X86_RCX, 0),
     (HV_X86_RDX, 0),
     (HV_X86_RBX, 0),
     (HV_X86_RSI, 0),
     (HV_X86_RDI, 0),
     (HV_X86_RSP, CONF_STACK_ADDR - 4),
     (HV_X86_RBP, 0)]"

fun write_fields :: "'w hv_ops \<Rightarrow> (vmcs_field \<times> u64) list \<Rightarrow> ('w, 'z) machine_scheme \<Rightarrow> ('w, 'z) machine_scheme" where
  "write_fields H [] m = m"
| "write_fields H ((f, v) # fs) m = write_fields H fs (write_vmcs H f v m)"

fun write_regs :: "'w hv_ops \<Rightarrow> (hv_x86_reg \<times> u64) list \<Rightarrow> ('w, 'z) machine_scheme \<Rightarrow> ('w, 'z) machine_scheme" where
  "write_regs H [] m = m"
| "write_regs H ((r, v) # rs) m = write_regs H rs (wreg H r v m)"

definition vcpu_setup_ia32 :: "'w hv_ops \<Rightarrow> ('w, 'z) machine_scheme \<Rightarrow> (int \<times> ('w, 'z) machine_scheme) option" where
  "vcpu_setup_ia32 H m = do {
     let m = write_fields H vmcs_setup m;
     m \<leftarrow> write_words m gdt_gpa gdt_entries;
     let m = write_fields H vmcs_setup_tables m;
     let (failed, m) = enable_native_msrs H native_msrs m;
     let pml4_gpa = get_pml4_gpa m;
     (n, m) \<leftarrow> vm_mem_write m (CONF_STACK_ADDR - 4) (take 4 (bytes64 pml4_gpa));
     Some (if failed then 1 else 0, write_regs H reg_setup m)
   }"

section \<open>vcpu_dump\<close>

text \<open>The values that \<open>vcpu_dump\<close> logs: it reads all into the same variable.\<close>

definition vmcs_dump_fields :: "vmcs_field list" where
  "vmcs_dump_fields = map fst vmcs_setup @ map fst vmcs_setup_tables"

definition dump_regs :: "hv_x86_reg list" where
  "dump_regs = [HV_X86_RIP, HV_X86_RFLAGS, HV_X86_RAX, HV_X86_RCX, HV_X86_RDX, HV_X86_RBX,
     HV_X86_RSI, HV_X86_RDI, HV_X86_RSP, HV_X86_RBP]"

fun dump_vmcs_values :: "'w hv_ops \<Rightarrow> ('w, 'z) machine_scheme \<Rightarrow> vmcs_field list \<Rightarrow> u64 \<Rightarrow> u64 list" where
  "dump_vmcs_values H m [] value = []"
| "dump_vmcs_values H m (f # fs) value =
     (let value = read_vmcs H m f value in value # dump_vmcs_values H m fs value)"

fun dump_reg_values :: "'w hv_ops \<Rightarrow> ('w, 'z) machine_scheme \<Rightarrow> hv_x86_reg list \<Rightarrow> u64 \<Rightarrow> u64 list" where
  "dump_reg_values H m [] value = []"
| "dump_reg_values H m (r # rs) value =
     (let value = read_reg H m r value in value # dump_reg_values H m rs value)"

definition vcpu_dump :: "'w hv_ops \<Rightarrow> ('w, 'z) machine_scheme \<Rightarrow> u64 list" where
  "vcpu_dump H m =
     (let vs = dump_vmcs_values H m vmcs_dump_fields 0
      in vs @ dump_reg_values H m dump_regs (last vs))"

section \<open>vcpu_run\<close>

text \<open>
  The last case of the switch: \<open>SYSCALL\<close> saves the address of the next instruction in
  RCX; if the two bytes before it are the instruction's, the exit is a system call.
\<close>

definition vcpu_unhandled :: "'w hv_ops \<Rightarrow> 'o os_ops \<Rightarrow> locals \<Rightarrow> ('w, 'o, 'z) process_scheme \<Rightarrow>
    (bool \<times> ('w, 'o, 'z) process_scheme) option" where
  "vcpu_unhandled H S u m = do {
     let rcx = read_reg H m HV_X86_RCX 0;
     if rcx \<ge> 2 then do {
       gpa \<leftarrow> gva_to_gpa (u_entry u) m (rcx - 2);
       bs \<leftarrow> vm_mem_read m gpa 2;
       if length bs = 2 \<and> overlay bytes16 word16 0 bs = 0x050f then do {
         (r, m) \<leftarrow> emu_syscall H S u (wreg H HV_X86_RIP rcx m);
         Some (r \<noteq> 0, m)
       }
       else Some (True, m)
     }
     else Some (True, m)
   }"

text \<open>The switch: whether to stop, and the new state.\<close>

definition vcpu_exit :: "'w hv_ops \<Rightarrow> 'o os_ops \<Rightarrow> locals \<Rightarrow> ('w, 'o, 'z) process_scheme \<Rightarrow>
    (bool \<times> ('w, 'o, 'z) process_scheme) option" where
  "vcpu_exit H S u m =
     (let exit_reason = read_vmcs H m VMCS_RO_EXIT_REASON 0;
          exit_instr_len = read_vmcs H m VMCS_RO_VMEXIT_INSTR_LEN 0;
          stopped = (\<lambda>(stop, m). Some (stop \<noteq> (0 :: int), m))
      in if exit_reason = vmx_reason_code H VMX_REASON_EXC_NMI then
           (let vecinfo = read_vmcs H m VMCS_RO_IDT_VECTOR_INFO 0;
                interrupt_number = ucast (vecinfo AND 0xFF) :: u8
            in if interrupt_number = 0 then Some (True, m)
               else Some (False, wreg H HV_X86_RIP (rreg H m HV_X86_RIP + 2) m))
         else if exit_reason = vmx_reason_code H VMX_REASON_IRQ then Some (False, m)
         else if exit_reason = vmx_reason_code H VMX_REASON_VMCALL then
           Some (False, wreg H HV_X86_RIP (rreg H m HV_X86_RIP + exit_instr_len) m)
         else if exit_reason = vmx_reason_code H VMX_REASON_HLT then Some (True, m)
         else if exit_reason = vmx_reason_code H VMX_REASON_EPT_VIOLATION then Some (False, m)
         else if exit_reason = vmx_reason_code H VMX_REASON_RDMSR then stopped (emu_rdmsr H m)
         else if exit_reason = vmx_reason_code H VMX_REASON_WRMSR then stopped (emu_wrmsr H m)
         else if exit_reason = vmx_reason_code H VMX_REASON_MOV_CR then
           stopped (emu_mov_cr H (u_efer u) (u_entryctls u) m)
         else if exit_reason = vmx_reason_code H VMX_REASON_CPUID then stopped (emu_cpuid H m)
         else vcpu_unhandled H S u m)"

definition vcpu_step :: "'w hv_ops \<Rightarrow> 'o os_ops \<Rightarrow> locals \<Rightarrow> ('w, 'o, 'z) process_scheme \<Rightarrow>
    (bool \<times> ('w, 'o, 'z) process_scheme) option" where
  "vcpu_step H S u m =
     (let (error, w, h) = hv_vcpu_run H (world m) (heap m); m = m\<lparr>world := w, heap := h\<rparr>
      in if error \<noteq> 0 then Some (True, m) else vcpu_exit H S u m)"

datatype 'm outcome = Running 'm | Stopped 'm | Undefined

fun vcpu_run :: "'w hv_ops \<Rightarrow> 'o os_ops \<Rightarrow> (nat \<Rightarrow> locals) \<Rightarrow> nat \<Rightarrow> ('w, 'o, 'z) process_scheme \<Rightarrow>
    ('w, 'o, 'z) process_scheme outcome" where
  "vcpu_run H S u 0 m = Running m"
| "vcpu_run H S u (Suc n) m =
     (case vcpu_step H S (u 0) m of
        None \<Rightarrow> Undefined
      | Some (stop, m') \<Rightarrow> if stop then Stopped m' else vcpu_run H S (\<lambda>i. u (Suc i)) n m')"

text \<open>The same loop as a relation: the states after some number of iterations.\<close>

inductive vcpu_reaches :: "'w hv_ops \<Rightarrow> 'o os_ops \<Rightarrow> ('w, 'o, 'z) process_scheme \<Rightarrow>
    ('w, 'o, 'z) process_scheme \<Rightarrow> bool" for H S m where
  start: "vcpu_reaches H S m m"
| again: "vcpu_reaches H S m m1 \<Longrightarrow> vcpu_step H S u m1 = Some (False, m2) \<Longrightarrow> vcpu_reaches H S m m2"

inductive vcpu_ends :: "'w hv_ops \<Rightarrow> 'o os_ops \<Rightarrow> ('w, 'o, 'z) process_scheme \<Rightarrow>
    ('w, 'o, 'z) process_scheme \<Rightarrow> bool" for H S m where
  stop: "vcpu_reaches H S m m1 \<Longrightarrow> vcpu_step H S u m1 = Some (True, m2) \<Longrightarrow> vcpu_ends H S m m2"

inductive_cases vcpu_endsE: "vcpu_ends H S m m'"

section \<open>What running the guest may change\<close>

text \<open>Guest code changes the contents of memory, not what is allocated.\<close>

definition hv_run_ok :: "'w hv_ops \<Rightarrow> bool" where
  "hv_run_ok H \<longleftrightarrow> (\<forall>w h. dom (snd (snd (hv_vcpu_run H w h))) = dom h)"

text \<open>What an iteration keeps.\<close>

definition keeps :: "('w, 'o, 'z) process_scheme \<Rightarrow> ('w, 'o, 'z) process_scheme \<Rightarrow> bool" where
  "keeps m m' \<longleftrightarrow> dom (heap m') = dom (heap m) \<and> mem_regions m' = mem_regions m \<and> pml4 m' = pml4 m
     \<and> pml4_gpa m' = pml4_gpa m \<and> plugin_table m' = plugin_table m"

lemma keeps_refl [simp]: "keeps m m"
  by (simp add: keeps_def)

lemma keeps_trans: "keeps m m1 \<Longrightarrow> keeps m1 m2 \<Longrightarrow> keeps m m2"
  by (simp add: keeps_def)

lemma keeps_mem_inv: "keeps m m' \<Longrightarrow> mem_inv m \<Longrightarrow> mem_inv m'"
  by (auto simp: keeps_def mem_inv_def backed_def)

lemma keeps_same_memory: "same_memory m m' \<Longrightarrow> keeps m m'"
  by (auto simp: same_memory_def keeps_def)

lemma keeps_effect: "effect p n m m' \<Longrightarrow> keeps m m'"
  by (auto simp: effect_def touches_def host_def keeps_def)

lemma emu_syscall_keeps:
  assumes "mem_inv m" "os_ok S" "plugin_ok (plugin_table m)"
  obtains r m' where "emu_syscall H S u m = Some (r, m')" "keeps m m'"
proof -
  obtain g where "gva_to_gpa (u_entry u) m (rreg H m HV_X86_RSI) = Some g"
    using gva_to_gpa_total [OF assms(1)] by blast
  from emu_syscall_returns [OF assms this] obtain r m' where
    "emu_syscall H S u m = Some (r, m')" "effect (gpa_to_hva m g) (unat (rreg H m HV_X86_RDX)) m m'"
    unfolding returns_def by blast
  with keeps_effect that show thesis by blast
qed

lemma vcpu_unhandled_keeps:
  assumes inv: "mem_inv m" and S: "os_ok S" and P: "plugin_ok (plugin_table m)"
  obtains stop m' where "vcpu_unhandled H S u m = Some (stop, m')" "keeps m m'"
proof -
  define rcx where "rcx = read_reg H m HV_X86_RCX 0"
  let ?m = "wreg H HV_X86_RIP rcx m"
  have two: "2 \<le> INT_MAX"
    by (simp add: INT_MAX_def)
  obtain gpa where g1: "gva_to_gpa (u_entry u) m (rcx - 2) = Some gpa"
    using gva_to_gpa_total [OF inv] by blast
  obtain bs where g2: "vm_mem_read m gpa 2 = Some bs"
    using gm.read_law [OF inv two] by blast
  note g = g1 g2
  have k: "keeps m ?m"
    by (rule keeps_same_memory) simp
  have inv': "mem_inv ?m" and P': "plugin_ok (plugin_table ?m)"
    using k inv P keeps_mem_inv by (auto simp: keeps_def)
  obtain r m' where "emu_syscall H S u ?m = Some (r, m')" "keeps ?m m'"
    using emu_syscall_keeps [OF inv' S P'] by blast
  with k keeps_trans g that show thesis
    unfolding vcpu_unhandled_def rcx_def [symmetric] Let_def
    by (cases "rcx \<ge> 2"; cases "length bs = 2 \<and> overlay bytes16 word16 0 bs = 0x050f") auto
qed

lemma vcpu_exit_keeps:
  assumes inv: "mem_inv m" and S: "os_ok S" and P: "plugin_ok (plugin_table m)"
  shows "\<exists>stop m'. vcpu_exit H S u m = Some (stop, m') \<and> keeps m m'"
proof -
  define Q where "Q = (\<lambda>res. \<exists>stop m'. res = Some (stop :: bool, m') \<and> keeps m m')"
  have w: "Q (Some (stop, wreg H r v m))" for stop r v
    unfolding Q_def by (auto intro: keeps_same_memory)
  have s: "Q (Some (stop, m))" for stop
    by (simp add: Q_def)
  have e: "Q (case x of (stop, m') \<Rightarrow> Some (stop \<noteq> (0 :: int), m'))" if "same_memory m (snd x)" for x
    using that by (cases x) (auto simp: Q_def intro: keeps_same_memory)
  have d: "Q (vcpu_unhandled H S u m)"
    unfolding Q_def using vcpu_unhandled_keeps [OF assms] by metis
  have "Q (vcpu_exit H S u m)"
    unfolding vcpu_exit_def Let_def
    by (simp only: split: if_split) (simp add: w s e [OF emu_same_memory(1)] e [OF emu_same_memory(2)]
        e [OF emu_same_memory(3)] e [OF emu_same_memory(4)] d)
  then show ?thesis
    by (simp add: Q_def)
qed

lemma vcpu_step_keeps:
  assumes inv: "mem_inv m" and S: "os_ok S" and P: "plugin_ok (plugin_table m)" and H: "hv_run_ok H"
  shows "\<exists>stop m'. vcpu_step H S u m = Some (stop, m') \<and> keeps m m'"
proof -
  obtain err w h where run: "hv_vcpu_run H (world m) (heap m) = (err, w, h)"
    by (cases "hv_vcpu_run H (world m) (heap m)") auto
  let ?m = "m\<lparr>world := w, heap := h\<rparr>"
  have "dom h = dom (heap m)"
    using H run unfolding hv_run_ok_def by (metis snd_conv)
  then have k: "keeps m ?m"
    by (simp add: keeps_def)
  have "mem_inv ?m" "plugin_ok (plugin_table ?m)"
    using keeps_mem_inv [OF k inv] P by simp_all
  then obtain stop m' where "vcpu_exit H S u ?m = Some (stop, m')" "keeps ?m m'"
    using vcpu_exit_keeps S by blast
  with run k keeps_trans [OF k] show ?thesis
    by (cases "err = 0") (auto simp: vcpu_step_def Let_def)
qed

section \<open>The loop\<close>

lemma vcpu_reaches_keeps:
  assumes "vcpu_reaches H S m m'" and S: "os_ok S" and H: "hv_run_ok H"
    and "mem_inv m" "plugin_ok (plugin_table m)"
  shows "keeps m m'"
  using assms(1)
proof (induction rule: vcpu_reaches.induct)
  case start
  then show ?case by simp
next
  case (again m1 u m2)
  then have "mem_inv m1" "plugin_ok (plugin_table m1)"
    using assms(4,5) keeps_mem_inv by (auto simp: keeps_def)
  from vcpu_step_keeps [OF this(1) S this(2) H, of u] again.hyps(2) have "keeps m1 m2"
    by auto
  with again.IH show ?case
    by (rule keeps_trans)
qed

lemma vcpu_run_outcome:
  assumes "vcpu_reaches H S m0 m" and "vcpu_run H S u n m = res"
  shows "res \<noteq> Undefined \<Longrightarrow> (\<exists>m'. res = Running m' \<and> vcpu_reaches H S m0 m' \<or> res = Stopped m' \<and> vcpu_ends H S m0 m')"
  using assms
proof (induction n arbitrary: m u)
  case 0
  then show ?case by auto
next
  case (Suc n)
  then obtain stop m' where s: "vcpu_step H S (u 0) m = Some (stop, m')"
    by (auto split: option.splits)
  show ?case
  proof (cases stop)
    case True
    with s Suc.prems show ?thesis by (auto intro: vcpu_ends.stop)
  next
    case False
    with s Suc.prems have "vcpu_reaches H S m0 m'"
      by (auto intro: vcpu_reaches.again)
    then show ?thesis
      using Suc.IH s False Suc.prems by simp
  qed
qed

lemma vcpu_run_keeps:
  assumes "mem_inv m" "os_ok S" "plugin_ok (plugin_table m)" "hv_run_ok H"
  shows "\<exists>m'. (vcpu_run H S u n m = Running m' \<or> vcpu_run H S u n m = Stopped m') \<and> keeps m m'"
  using assms(1,3)
proof (induction n arbitrary: m u)
  case 0
  then show ?case by simp
next
  case (Suc n)
  obtain stop m2 where s: "vcpu_step H S (u 0) m = Some (stop, m2)" "keeps m m2"
    using vcpu_step_keeps [OF Suc.prems(1) assms(2) Suc.prems(2) assms(4)] by blast
  have "mem_inv m2" "plugin_ok (plugin_table m2)"
    using keeps_mem_inv [OF s(2) Suc.prems(1)] s(2) Suc.prems(2) by (simp_all add: keeps_def)
  then obtain m' where m': "vcpu_run H S (\<lambda>i. u (Suc i)) n m2 = Running m'
      \<or> vcpu_run H S (\<lambda>i. u (Suc i)) n m2 = Stopped m'" "keeps m2 m'"
    using Suc.IH by metis
  with s show ?case
    by (cases stop) (auto intro: keeps_trans)
qed

lemma vcpu_run_more:
  "vcpu_run H S u n m = Stopped m' \<Longrightarrow> vcpu_run H S u (n + k) m = Stopped m'"
proof (induction n arbitrary: m u)
  case 0
  then show ?case by simp
next
  case (Suc n)
  then show ?case
    by (simp split: option.splits prod.splits if_splits)
qed

end
