(* ===== verification/VcpuSetup.thy ===== *)
theory VcpuSetup
  imports Vcpu
begin

text \<open>
  The state that \<open>vcpu_setup_ia32\<close> leaves: the control structure and the registers hold
  the values of the two tables, the descriptors are in guest memory, and the word below the
  initial stack holds the address of the root page table for the boot code.
\<close>

section \<open>Runs of register and field writes\<close>

lemma write_fields_same_memory: "same_memory m (write_fields H fs m)"
proof (induction fs arbitrary: m)
  case Nil
  then show ?case by simp
next
  case (Cons x fs)
  obtain f v where "x = (f, v)" by (cases x)
  then show ?case
    using Cons.IH [of "write_vmcs H f v m"] same_memory_write_vmcs [of m m H f v]
    by (auto intro: same_memory_trans)
qed

lemma write_regs_same_memory: "same_memory m (write_regs H rs m)"
proof (induction rs arbitrary: m)
  case Nil
  then show ?case by simp
next
  case (Cons x rs)
  obtain r v where "x = (r, v)" by (cases x)
  moreover have "same_memory m (wreg H r v m)" by simp
  ultimately show ?case
    using same_memory_trans [OF _ Cons.IH [of "wreg H r v m"]] by simp
qed

lemma write_fields_value:
  assumes ok: "hv_regs_ok H rg vc"
  shows "distinct (map fst fs) \<Longrightarrow> (\<forall>f \<in> fst ` set fs. \<not> read_only f) \<Longrightarrow>
    vc (world (write_fields H fs m)) f = (case map_of fs f of None \<Rightarrow> vc (world m) f | Some v \<Rightarrow> v)"
proof (induction fs arbitrary: m)
  case Nil
  then show ?case by simp
next
  case (Cons x fs)
  obtain g v where x: "x = (g, v)" by (cases x)
  with Cons.prems have "map_of fs g = None" "\<not> read_only g"
    by (simp_all add: map_of_eq_None_iff)
  with Cons x show ?case
    using write_vmcs_ok(1) [OF ok, of g v m] by (auto split: option.splits)
qed

lemma write_fields_regs:
  assumes ok: "hv_regs_ok H rg vc"
  shows "(\<forall>f \<in> fst ` set fs. \<not> read_only f) \<Longrightarrow> r \<noteq> HV_X86_CR0 \<Longrightarrow>
    rg (world (write_fields H fs m)) r = rg (world m) r"
proof (induction fs arbitrary: m)
  case Nil
  then show ?case by simp
next
  case (Cons x fs)
  obtain g v where x: "x = (g, v)" by (cases x)
  with Cons show ?case
    using write_vmcs_ok(2) [OF ok, of g r v m] by simp
qed

lemma write_regs_value:
  assumes ok: "hv_regs_ok H rg vc"
  shows "distinct (map fst rs) \<Longrightarrow>
    rg (world (write_regs H rs m)) r = (case map_of rs r of None \<Rightarrow> rg (world m) r | Some v \<Rightarrow> v)"
proof (induction rs arbitrary: m)
  case Nil
  then show ?case by simp
next
  case (Cons x rs)
  obtain g v where x: "x = (g, v)" by (cases x)
  with Cons.prems have "map_of rs g = None"
    by (simp add: map_of_eq_None_iff)
  with Cons x show ?case
    using wreg_ok(1) [OF ok, of g v m] by (auto split: option.splits)
qed

lemma write_regs_fields:
  assumes ok: "hv_regs_ok H rg vc"
  shows "HV_X86_CR0 \<notin> fst ` set rs \<Longrightarrow> vc (world (write_regs H rs m)) f = vc (world m) f"
proof (induction rs arbitrary: m)
  case Nil
  then show ?case by simp
next
  case (Cons x rs)
  obtain g v where x: "x = (g, v)" by (cases x)
  with Cons.prems have "g \<noteq> HV_X86_CR0" by auto
  with Cons x show ?case
    using wreg_ok(2) [OF ok, of g f v m] by simp
qed

text \<open>Enabling a machine-specific register leaves both files alone.\<close>

definition hv_msr_ok ::
  "'w hv_ops \<Rightarrow> ('w \<Rightarrow> hv_x86_reg \<Rightarrow> u64) \<Rightarrow> ('w \<Rightarrow> vmcs_field \<Rightarrow> u64) \<Rightarrow> bool" where
  "hv_msr_ok H rg vc \<longleftrightarrow> (\<forall>w msr e. rg (snd (hv_vcpu_enable_native_msr H w msr e)) = rg w
     \<and> vc (snd (hv_vcpu_enable_native_msr H w msr e)) = vc w)"

lemma enable_native_msrs_keeps:
  assumes "hv_msr_ok H rg vc"
  shows "enable_native_msrs H msrs m = (failed, m') \<Longrightarrow>
    same_memory m m' \<and> rg (world m') = rg (world m) \<and> vc (world m') = vc (world m)"
proof (induction msrs arbitrary: m)
  case Nil
  then show ?case by auto
next
  case (Cons msr msrs)
  let ?x = "hv_vcpu_enable_native_msr H (world m) msr True"
  have 1: "rg (snd ?x) = rg (world m)" "vc (snd ?x) = vc (world m)"
    using assms by (simp_all add: hv_msr_ok_def)
  have "same_memory m (m\<lparr>world := snd ?x\<rparr>)"
    by (auto simp: same_memory_def)
  with 1 Cons.prems Cons.IH [of "m\<lparr>world := snd ?x\<rparr>"] show ?case
    by (cases "fst ?x = 0") (auto simp: split_beta Let_def intro: same_memory_trans)
qed

section \<open>The descriptor table\<close>

lemma poke_append: "poke f a (xs @ ys) = poke (poke f a xs) (a + of_nat (length xs)) ys"
  by (induction xs arbitrary: f a) (simp_all add: add.assoc)

lemma avail_append: "avail f a (n + k) \<longleftrightarrow> avail f a n \<and> avail f (a + of_nat n) k"
proof
  assume a: "avail f a (n + k)"
  have "f (a + of_nat n + of_nat i) \<noteq> None" if "i < k" for i
    using a that by (metis add.assoc avail_def nat_add_left_cancel_less of_nat_add)
  with a show "avail f a n \<and> avail f (a + of_nat n) k"
    by (auto simp: avail_def)
next
  assume a: "avail f a n \<and> avail f (a + of_nat n) k"
  have "f (a + of_nat i) \<noteq> None" if "i < n + k" for i
  proof (cases "i < n")
    case False
    then have "i - n < k" and i: "i = n + (i - n)"
      using that by simp_all
    with a have "f (a + of_nat n + of_nat (i - n)) \<noteq> None"
      unfolding avail_def by blast
    with False show ?thesis by (simp add: add.assoc flip: of_nat_add)
  qed (use a in \<open>simp add: avail_def\<close>)
  then show "avail f a (n + k)"
    by (simp add: avail_def)
qed

lemma write_words_ok:
  "mem_inv m \<Longrightarrow> avail (gbyte m) a (8 * length vs) \<Longrightarrow>
     \<exists>h. write_words m a vs = Some (m\<lparr>heap := h\<rparr>) \<and> mem_inv (m\<lparr>heap := h\<rparr>)
       \<and> gbyte (m\<lparr>heap := h\<rparr>) = poke (gbyte m) a (concat (map bytes64 vs)) \<and> dom h = dom (heap m)"
proof (induction vs arbitrary: m a)
  case Nil
  then show ?case by (auto intro: exI [of _ "heap m"])
next
  case (Cons v vs)
  have len: "length (bytes64 v) = 8" "length (bytes64 v) \<le> INT_MAX"
    by (simp_all add: codec64.length_enc INT_MAX_def)
  have av: "avail (gbyte m) a 8" "avail (gbyte m) (a + 8) (8 * length vs)"
    using Cons.prems(2) avail_append [of "gbyte m" a 8 "8 * length vs"] by simp_all
  obtain m1 where w: "vm_mem_write m a (bytes64 v) = Some (length (bytes64 v), m1)" "mem_inv m1"
    "gbyte m1 = poke (gbyte m) a (bytes64 v)"
    using gm.write_avail [OF Cons.prems(1) len(2), of a] av(1) len(1) by metis
  then obtain h where m1: "m1 = m\<lparr>heap := h\<rparr>" and d1: "dom h = dom (heap m)"
    using vm_mem_write_frame [OF Cons.prems(1) len(2) w(1)] by blast
  have "avail (gbyte m1) (a + 8) (8 * length vs)"
    unfolding w(3) using av(2) by (rule avail_poke)
  then obtain h' where h': "write_words m1 (a + 8) vs = Some (m1\<lparr>heap := h'\<rparr>)" "mem_inv (m1\<lparr>heap := h'\<rparr>)"
    "gbyte (m1\<lparr>heap := h'\<rparr>) = poke (gbyte m1) (a + 8) (concat (map bytes64 vs))" "dom h' = dom (heap m1)"
    using Cons.IH [OF w(2)] by blast
  have "write_words m a (v # vs) = Some (m\<lparr>heap := h'\<rparr>)"
    using w(1) h'(1) by (simp add: m1)
  moreover have "gbyte (m\<lparr>heap := h'\<rparr>) = poke (gbyte m) a (concat (map bytes64 (v # vs)))"
    using h'(3) w(3) len(1) by (simp add: m1 poke_append)
  ultimately show ?case
    using h'(2,4) m1 d1 by auto
qed

section \<open>The whole setup\<close>

lemma setup_tables:
  "distinct (map fst (vmcs_setup @ vmcs_setup_tables))"
  "\<forall>f \<in> fst ` set (vmcs_setup @ vmcs_setup_tables). \<not> read_only f"
  "distinct (map fst reg_setup)" "HV_X86_CR0 \<notin> fst ` set reg_setup"
  "length gdt_entries = 4"
  by (simp_all add: vmcs_setup_def vmcs_setup_tables_def read_only_def reg_setup_def gdt_entries_def)

text \<open>The value of a field that one of the two tables names.\<close>

lemma setup_field_value:
  assumes fv: "(f, v) \<in> set (vmcs_setup @ vmcs_setup_tables)"
  shows "(case map_of vmcs_setup_tables f of
      None \<Rightarrow> (case map_of vmcs_setup f of None \<Rightarrow> old | Some v \<Rightarrow> v) | Some v \<Rightarrow> v) = v"
proof -
  have "map_of vmcs_setup f = None \<or> map_of vmcs_setup_tables f = None"
    using setup_tables(1) by (auto simp: map_of_eq_None_iff)
  moreover have "map_of (vmcs_setup @ vmcs_setup_tables) f = Some v"
    using setup_tables(1) fv by (rule map_of_is_SomeI)
  ultimately show ?thesis
    by (auto simp: map_add_def split: option.splits)
qed

lemma vcpu_setup_ia32_ok:
  assumes inv: "mem_inv m" and ok: "hv_regs_ok H rg vc" and msr: "hv_msr_ok H rg vc"
    and gdt: "avail (gbyte m) 0 32" and stack: "avail (gbyte m) 0x6FFC 4"
  obtains r m' where "vcpu_setup_ia32 H m = Some (r, m')" "r = 0 \<or> r = 1" "mem_inv m'"
    "gbyte m' = poke (poke (gbyte m) 0 (concat (map bytes64 gdt_entries))) 0x6FFC (take 4 (bytes64 (pml4_gpa m)))"
    "\<forall>f v. (f, v) \<in> set (vmcs_setup @ vmcs_setup_tables) \<longrightarrow> vc (world m') f = v"
    "\<forall>x v. (x, v) \<in> set reg_setup \<longrightarrow> rg (world m') x = v"
    "same_memory (m\<lparr>heap := heap m'\<rparr>) m'" "dom (heap m') = dom (heap m)"
proof -
  let ?m1 = "write_fields H vmcs_setup m"
  note s1 = same_memoryD [OF write_fields_same_memory [of m H vmcs_setup]]
  have av1: "avail (gbyte ?m1) gdt_gpa (8 * length gdt_entries)"
    using gdt s1(2) setup_tables(5) by (simp add: gdt_gpa_def)
  obtain h where w1: "write_words ?m1 gdt_gpa gdt_entries = Some (?m1\<lparr>heap := h\<rparr>)"
    and inv2: "mem_inv (?m1\<lparr>heap := h\<rparr>)"
    and b2: "gbyte (?m1\<lparr>heap := h\<rparr>) = poke (gbyte m) 0 (concat (map bytes64 gdt_entries))"
    and d2: "dom h = dom (heap m)"
    using write_words_ok [OF _ av1] s1(1,2,5) inv by (auto simp: gdt_gpa_def)
  define m2 where "m2 = ?m1\<lparr>heap := h\<rparr>"
  let ?m3 = "write_fields H vmcs_setup_tables m2"
  obtain failed m4 where e: "enable_native_msrs H native_msrs ?m3 = (failed, m4)" by fastforce
  note k4 = enable_native_msrs_keeps [OF msr e]
  note s4 = same_memoryD [OF same_memory_trans [OF write_fields_same_memory [of m2 H vmcs_setup_tables]
      k4 [THEN conjunct1]]]
  have inv4: "mem_inv m4" and b4: "gbyte m4 = gbyte m2" and p4: "pml4_gpa m4 = pml4_gpa m"
    using s4 s1 inv2 by (simp_all add: m2_def)
  let ?bs = "take 4 (bytes64 (pml4_gpa m))"
  have len: "length ?bs = 4" "length ?bs \<le> INT_MAX"
    by (simp_all add: codec64.length_enc INT_MAX_def)
  have "avail (gbyte m4) 0x6FFC (length ?bs)"
    unfolding b4 m2_def b2 len(1) using stack by (rule avail_poke)
  then obtain m5 where w5: "vm_mem_write m4 0x6FFC ?bs = Some (length ?bs, m5)" "mem_inv m5"
    "gbyte m5 = poke (gbyte m4) 0x6FFC ?bs"
    using gm.write_avail [OF inv4 len(2)] by metis
  obtain h5 where m5: "m5 = m4\<lparr>heap := h5\<rparr>" and d5: "dom h5 = dom (heap m4)"
    using vm_mem_write_frame [OF inv4 len(2) w5(1)] by blast
  let ?m6 = "write_regs H reg_setup m5"
  note s6 = same_memoryD [OF write_regs_same_memory [of m5 H reg_setup]]
  have run: "vcpu_setup_ia32 H m = Some (if failed then 1 else 0, ?m6)"
    unfolding vcpu_setup_ia32_def Let_def using w1 e w5(1)
    by (simp add: m2_def [symmetric] get_pml4_gpa_def p4 CONF_STACK_ADDR_def)
  have fields: "vc (world ?m6) f = v" if fv: "(f, v) \<in> set (vmcs_setup @ vmcs_setup_tables)" for f v
  proof -
    have d: "distinct (map fst vmcs_setup)" "distinct (map fst vmcs_setup_tables)"
      "\<forall>f \<in> fst ` set vmcs_setup. \<not> read_only f" "\<forall>f \<in> fst ` set vmcs_setup_tables. \<not> read_only f"
      using setup_tables(1,2) by auto
    have "vc (world ?m6) f = vc (world ?m3) f"
      using write_regs_fields [OF ok setup_tables(4), of m5 f] k4 by (simp add: m5)
    also have "\<dots> = (case map_of vmcs_setup_tables f of None \<Rightarrow> vc (world m2) f | Some v \<Rightarrow> v)"
      using ok d(2,4) by (rule write_fields_value)
    also have "vc (world m2) f = (case map_of vmcs_setup f of None \<Rightarrow> vc (world m) f | Some v \<Rightarrow> v)"
      using write_fields_value [OF ok d(1,3)] by (simp add: m2_def)
    finally show ?thesis
      using setup_field_value [OF fv] by simp
  qed
  have regs: "rg (world ?m6) x = v" if "(x, v) \<in> set reg_setup" for x v
    using write_regs_value [OF ok setup_tables(3), of m5 x] map_of_is_SomeI [OF setup_tables(3) that]
    by (simp only: option.case)
  show thesis
  proof (rule that [OF run])
    show "\<forall>f v. (f, v) \<in> set (vmcs_setup @ vmcs_setup_tables) \<longrightarrow> vc (world ?m6) f = v"
      "\<forall>x v. (x, v) \<in> set reg_setup \<longrightarrow> rg (world ?m6) x = v"
      using fields regs by blast+
    show "dom (heap ?m6) = dom (heap m)"
      using s6(5) s4(5) d5 d2 by (simp add: m5 m2_def)
    obtain w1 w4 w6 where w: "?m1 = m\<lparr>world := w1\<rparr>" "m4 = m2\<lparr>world := w4\<rparr>" "?m6 = m5\<lparr>world := w6\<rparr>"
      using write_fields_same_memory [of m H vmcs_setup] write_regs_same_memory [of m5 H reg_setup]
        same_memory_trans [OF write_fields_same_memory [of m2 H vmcs_setup_tables] k4 [THEN conjunct1]]
      unfolding same_memory_def by blast
    have "?m6 = m\<lparr>heap := heap ?m6, world := w6\<rparr>"
      using w by (simp add: m5 m2_def)
    then show "same_memory (m\<lparr>heap := heap ?m6\<rparr>) ?m6"
      unfolding same_memory_def by blast
  qed (use s6 w5 b4 b2 in \<open>simp_all add: m2_def\<close>)
qed

text \<open>The bytes that the setup leaves.\<close>

lemma setup_bytes:
  fixes f :: "u64 \<rightharpoonup> u8"
  assumes b: "f' = poke (poke f 0 (concat (map bytes64 gdt_entries))) 0x6FFC (take 4 (bytes64 root))"
  shows "peek f' 0 32 = concat (map bytes64 gdt_entries)" and "peek f' 0x6FFC 4 = take 4 (bytes64 root)"
    and "in_block 0 32 x \<or> in_block 0x6FFC 4 x \<or> f' x = f x"
proof -
  let ?g = "concat (map bytes64 gdt_entries)" and ?b = "take 4 (bytes64 root)"
  have len: "length ?g = 32" "length ?b = 4"
    by (simp_all add: codec64.length_enc gdt_entries_def)
  have small: "length ?g \<le> 2 ^ 64" "length ?b \<le> 2 ^ 64"
    unfolding len by simp_all
  have p1: "poke f 0 ?g x = f x" if "\<not> in_block 0 32 x" for x
    using that by (subst poke_apply [OF small(1)]) (simp only: len if_False)
  have p2: "poke h 0x6FFC ?b x = h x" if "\<not> in_block 0x6FFC 4 x" for h x
    using that by (subst poke_apply [OF small(2)]) (simp only: len if_False)
  have "apart 0x6FFC (length ?b) 0 32"
    unfolding len(2) by (rule apart_by_unat) simp_all
  then show "peek f' 0 32 = ?g"
    unfolding b by (subst peek_poke_apart [OF small(2)]) (use peek_poke_same [OF small(1), of 32] len in simp_all)
  show "peek f' 0x6FFC 4 = ?b"
    unfolding b using peek_poke_same [OF small(2), of 4] len by simp
  show "in_block 0 32 x \<or> in_block 0x6FFC 4 x \<or> f' x = f x"
    unfolding b using p1 p2 by metis
qed

end
