(* ===== verification/DemoProcess.thy ===== *)
theory DemoProcess
  imports DemoHost VcpuSetup
begin

text \<open>
  The concrete hypervisor keeps the documented behaviour; a concrete operating system, and a
  process whose machine is \<open>root_machine\<close>, for the instances of the properties.
\<close>

lemma demo_regs_ok: "hv_regs_ok demo_hv dw_regs dw_vmcs"
  by (simp add: hv_regs_ok_def demo_hv_def)

lemma demo_msr_ok: "hv_msr_ok demo_hv dw_regs dw_vmcs"
  by (simp add: hv_msr_ok_def demo_hv_def)

lemma demo_run_ok: "hv_run_ok demo_hv"
  by (simp add: hv_run_ok_def demo_hv_def demo_run_def split: list.splits)

text \<open>The system collects what is written and reads one byte \<open>A\<close>.\<close>

definition demo_os :: "u8 list os_ops" where
  "demo_os = \<lparr>
     os_getchar = (\<lambda>h. (0x71, h)),
     os_write = (\<lambda>h fd p n. (n, fst h @ map (\<lambda>i. case snd h (p + of_nat i) of Some b \<Rightarrow> b | None \<Rightarrow> 0) [0..<unat n], snd h)),
     os_read = (\<lambda>h fd p n. if 0 < n \<and> snd h p \<noteq> None then (1, fst h, (snd h)(p \<mapsto> 0x41)) else (0, h)),
     os_open = (\<lambda>h p flags mode. (3, h)),
     os_close = (\<lambda>h fd. (0, h))\<rparr>"

lemma demo_os_ok: "os_ok demo_os"
  by (auto simp: os_ok_def demo_os_def touches_def in_block_def word_less_nat_alt)

lemma no_plugin_ok: "plugin_ok no_plugin"
  by (simp add: plugin_ok_def no_plugin_def)

section \<open>A process around a machine\<close>

definition process_of :: "'w machine \<Rightarrow> ('w, u8 list) process" where
  "process_of m = machine.extend m \<lparr>os = [], plugin_table = no_plugin, syscall_interactive = False\<rparr>"

lemma process_of_fields [simp]:
  "mem_regions (process_of m) = mem_regions m" "pml4 (process_of m) = pml4 m"
  "pml4_gpa (process_of m) = pml4_gpa m" "heap (process_of m) = heap m"
  "world (process_of m) = world m" "plugin_table (process_of m) = no_plugin"
  "syscall_interactive (process_of m) = False" "os (process_of m) = []"
  by (simp_all add: process_of_def machine.defs)

lemma process_of_memory:
  "gpa_to_hva (process_of m) = gpa_to_hva m" "gbyte (process_of m) = gbyte m"
  "mem_inv (process_of m) \<longleftrightarrow> mem_inv m" "ent (process_of m) = ent m" "pt_ok (process_of m) \<longleftrightarrow> pt_ok m"
proof -
  show g: "gpa_to_hva (process_of m) = gpa_to_hva m"
    by (simp add: gpa_to_hva_def fun_eq_iff)
  then show b: "gbyte (process_of m) = gbyte m"
    by (simp add: gbyte_def fun_eq_iff)
  then show e: "ent (process_of m) = ent m"
    by (intro ext) (simp add: ent_def)
  show "mem_inv (process_of m) \<longleftrightarrow> mem_inv m"
    by (simp add: mem_inv_def backed_def)
  have "page_ok (process_of m) = page_ok m"
    by (simp add: page_ok_def b fun_eq_iff)
  with e show "pt_ok (process_of m) \<longleftrightarrow> pt_ok m"
    by (simp add: pt_ok_def)
qed

text \<open>The registers at the start and the script of exits, around the empty root table.\<close>

definition demo_process :: "(hv_x86_reg \<times> u64) list \<Rightarrow> (vmcs_field \<times> u64) list \<Rightarrow> demo_exit list \<Rightarrow>
    (demo_world, u8 list) process" where
  "demo_process rs fs es = process_of (root_machine\<lparr>world := \<lparr>
     dw_regs = (\<lambda>r. case map_of rs r of None \<Rightarrow> 0 | Some v \<Rightarrow> v),
     dw_vmcs = (\<lambda>f. case map_of fs f of None \<Rightarrow> 0 | Some v \<Rightarrow> v), dw_script = es\<rparr>\<rparr>)"

lemma demo_process_fields [simp]:
  "dw_regs (world (demo_process rs fs es)) r = (case map_of rs r of None \<Rightarrow> 0 | Some v \<Rightarrow> v)"
  "dw_vmcs (world (demo_process rs fs es)) f = (case map_of fs f of None \<Rightarrow> 0 | Some v \<Rightarrow> v)"
  "dw_script (world (demo_process rs fs es)) = es"
  "plugin_table (demo_process rs fs es) = no_plugin" "syscall_interactive (demo_process rs fs es) = False"
  "os (demo_process rs fs es) = []" "heap (demo_process rs fs es) = heap root_machine"
  "mem_regions (demo_process rs fs es) = mem_regions root_machine" "pml4_gpa (demo_process rs fs es) = 0x1000"
  by (simp_all add: demo_process_def root_machine_def)

lemma demo_process_memory:
  "mem_inv (demo_process rs fs es)" "pt_ok (demo_process rs fs es)"
  "gbyte (demo_process rs fs es) = gbyte root_machine"
  "gpa_to_hva (demo_process rs fs es) = gpa_to_hva root_machine"
  "ent (demo_process rs fs es) = ent root_machine"
proof -
  have s: "same_memory root_machine (root_machine\<lparr>world := w\<rparr>)" for w
    by (auto simp: same_memory_def)
  have g: "gpa_to_hva (root_machine\<lparr>world := w\<rparr>) = gpa_to_hva root_machine" for w
    by (simp add: gpa_to_hva_def fun_eq_iff)
  have e: "ent (root_machine\<lparr>world := w\<rparr>) = ent root_machine" for w
    by (intro ext) (simp add: ent_def same_memoryD(2) [OF s])
  have "page_ok (root_machine\<lparr>world := w\<rparr>) = page_ok root_machine" for w
    by (simp add: page_ok_def fun_eq_iff same_memoryD(2) [OF s])
  then have p: "pt_ok (root_machine\<lparr>world := w\<rparr>)" for w
    using root_machine_pt by (simp add: pt_ok_def e)
  show "mem_inv (demo_process rs fs es)" "pt_ok (demo_process rs fs es)"
    "gbyte (demo_process rs fs es) = gbyte root_machine"
    "gpa_to_hva (demo_process rs fs es) = gpa_to_hva root_machine"
    "ent (demo_process rs fs es) = ent root_machine"
    using same_memoryD(1,2) [OF s] root_machine_inv p g e
    by (simp_all add: demo_process_def process_of_memory)
qed

text \<open>Low addresses translate to themselves there, through the empty entries and page 0.\<close>

lemma demo_process_translate:
  assumes "unat gva < 4096"
  shows "gva_to_gpa e0 (demo_process rs fs es) gva = Some gva"
proof -
  have "gva_to_gpa e0 (demo_process rs fs es) gva = Some (gva AND 0xFFF)"
  proof (rule gva_to_gpa_unmapped)
    show "ent (demo_process rs fs es) (pml4_gpa (demo_process rs fs es)) (pidx 3 gva) = 0"
      by (simp add: demo_process_memory root_machine_root)
    show "gbyte (demo_process rs fs es) (of_nat i) = Some 0" if "i < 4096" for i
      using that by (simp add: demo_process_memory root_machine_byte unat_of_nat_small)
  qed (rule demo_process_memory)+
  moreover have "gva AND 0xFFF = gva"
    using assms by (intro word_eq_by_unat) (simp add: unat_low_12)
  ultimately show ?thesis by simp
qed

end
