(* ===== verification/Progress.thy ===== *)
theory Progress
  imports Vcpu
begin

text \<open>
  The run loop makes progress only by entering the guest: a ranking function that every
  successful entry decreases, and that accesses to registers and control fields do not
  increase, bounds the number of iterations. And what the loop does is what the step
  relation says, in both directions.
\<close>

section \<open>A bound on the guest's entries\<close>

definition guest_time :: "'w hv_ops \<Rightarrow> ('w \<Rightarrow> nat) \<Rightarrow> bool" where
  "guest_time H left \<longleftrightarrow>
     (\<forall>w h e w' h'. hv_vcpu_run H w h = (e, w', h') \<longrightarrow> e = 0 \<longrightarrow> left w' < left w)
   \<and> (\<forall>w r v. left (snd (hv_vcpu_write_register H w r v)) \<le> left w)
   \<and> (\<forall>w f v. left (snd (hv_vmx_vcpu_write_vmcs H w f v)) \<le> left w)"

definition no_more :: "('w \<Rightarrow> nat) \<Rightarrow> ('w, 'z) machine_scheme \<Rightarrow> ('w, 'z) machine_scheme \<Rightarrow> bool" where
  "no_more left m m' \<longleftrightarrow> left (world m') \<le> left (world m)"

lemma no_more_refl [simp]: "no_more left m m"
  by (simp add: no_more_def)

lemma no_more_write:
  assumes "guest_time H left" "no_more left m m'"
  shows "no_more left m (wreg H r v m')" and "no_more left m (write_vmcs H f v m')"
proof -
  have "left (snd (hv_vcpu_write_register H (world m') r v)) \<le> left (world m')"
    "left (snd (hv_vmx_vcpu_write_vmcs H (world m') f v)) \<le> left (world m')"
    using assms(1) by (simp_all add: guest_time_def)
  with assms(2) show "no_more left m (wreg H r v m')" "no_more left m (write_vmcs H f v m')"
    by (simp_all add: no_more_def wreg_def write_vmcs_def)
qed

lemma no_more_set_host [simp]: "no_more left m (set_host h m') \<longleftrightarrow> no_more left m m'"
  by (simp add: no_more_def)

lemma ask_quit_world: "ask_quit S m = (q, m') \<Longrightarrow> world m' = world m"
  by (auto simp: ask_quit_def Let_def split: if_splits prod.splits)

lemma call_or_world: "call_or cb sys m = (r, m') \<Longrightarrow> world m' = world m"
  by (auto simp: call_or_def Let_def split: option.splits prod.splits if_splits)

lemma emu_no_more:
  assumes "guest_time H left"
  shows "no_more left m (snd (emu_rdmsr H m))" "no_more left m (snd (emu_wrmsr H m))"
    and "no_more left m (snd (emu_mov_cr H e1 e2 m))" "no_more left m (snd (emu_cpuid H m))"
  using assms by (simp_all add: emu_rdmsr_def emu_wrmsr_def emu_mov_cr_def emu_cpuid_def Let_def no_more_write)

lemma emu_syscall_no_more:
  assumes "guest_time H left" and ret: "emu_syscall H S u m = Some (r, m')"
  shows "no_more left m m'"
proof -
  have w: "no_more left m (wreg H x v m2)" if "world m2 = world m" for x v m2
    using assms(1) that by (intro no_more_write(1)) (simp_all add: no_more_def)
  have s: "no_more left m m2" if "world m2 = world m" for m2
    using that by (simp add: no_more_def)
  show ?thesis
    using ret unfolding emu_syscall_def emu_syscall_write_def emu_syscall_open_def emu_syscall_close_def
      emu_syscall_read_def Let_def
    by (auto split: if_splits Option.bind_splits prod.splits dest!: ask_quit_world call_or_world intro!: w intro: s)
qed

lemma vcpu_exit_no_more:
  assumes g: "guest_time H left" and ret: "vcpu_exit H S u m = Some (stop, m')"
  shows "no_more left m m'"
proof -
  define Q where "Q = (\<lambda>res. \<forall>stop m'. res = Some (stop :: bool, m') \<longrightarrow> no_more left m m')"
  have w: "Q (Some (stop, wreg H r v m))" for stop r v
    unfolding Q_def using no_more_write(1) [OF g no_more_refl] by blast
  have s: "Q (Some (stop, m))" for stop
    by (simp add: Q_def)
  have e: "Q (case x of (stop, m') \<Rightarrow> Some (stop \<noteq> (0 :: int), m'))" if "no_more left m (snd x)" for x
    using that by (cases x) (auto simp: Q_def)
  have d: "Q (vcpu_unhandled H S u m)"
  proof -
    have "no_more left m m2" if "emu_syscall H S u (wreg H r v m) = Some (x, m2)" for r v x m2
      using emu_syscall_no_more [OF g that] no_more_write(1) [OF g no_more_refl, of m r v]
      by (simp add: no_more_def)
    then show ?thesis
      unfolding Q_def vcpu_unhandled_def Let_def by (auto split: if_splits Option.bind_splits)
  qed
  have "Q (vcpu_exit H S u m)"
    unfolding vcpu_exit_def Let_def
    by (simp only: split: if_split) (simp add: w s e [OF emu_no_more(1) [OF g]] e [OF emu_no_more(2) [OF g]]
        e [OF emu_no_more(3) [OF g]] e [OF emu_no_more(4) [OF g]] d)
  with ret show ?thesis
    by (simp add: Q_def)
qed

lemma vcpu_step_progress:
  assumes g: "guest_time H left" and ret: "vcpu_step H S u m = Some (stop, m')"
  shows "stop \<or> left (world m') < left (world m)"
proof -
  obtain e w h where run: "hv_vcpu_run H (world m) (heap m) = (e, w, h)"
    using prod_cases3 by blast
  show ?thesis
  proof (cases "e = 0")
    case False
    with run ret show ?thesis by (simp add: vcpu_step_def)
  next
    case True
    with run ret have "vcpu_exit H S u (m\<lparr>world := w, heap := h\<rparr>) = Some (stop, m')"
      by (simp add: vcpu_step_def)
    from vcpu_exit_no_more [OF g this] have "left (world m') \<le> left w"
      by (simp add: no_more_def)
    moreover have "left w < left (world m)"
      using g run True unfolding guest_time_def by blast
    ultimately show ?thesis by simp
  qed
qed

lemma vcpu_run_progress:
  assumes S: "os_ok S" and H: "hv_run_ok H" and g: "guest_time H left"
  shows "mem_inv m \<Longrightarrow> plugin_ok (plugin_table m) \<Longrightarrow> left (world m) < n \<Longrightarrow>
    \<exists>m'. vcpu_run H S u n m = Stopped m' \<and> keeps m m'"
proof (induction n arbitrary: m u)
  case 0
  then show ?case by simp
next
  case (Suc n)
  obtain stop m1 where s: "vcpu_step H S (u 0) m = Some (stop, m1)" "keeps m m1"
    using vcpu_step_keeps [OF Suc.prems(1) S Suc.prems(2) H] by blast
  show ?case
  proof (cases stop)
    case True
    with s show ?thesis by simp
  next
    case False
    then have "left (world m1) < n"
      using vcpu_step_progress [OF g s(1)] Suc.prems(3) by simp
    moreover have "mem_inv m1" "plugin_ok (plugin_table m1)"
      using s(2) Suc.prems keeps_mem_inv by (auto simp: keeps_def)
    ultimately obtain m' where "vcpu_run H S (\<lambda>i. u (Suc i)) n m1 = Stopped m'" "keeps m1 m'"
      using Suc.IH by blast
    with s False keeps_trans [OF s(2)] show ?thesis by auto
  qed
qed

section \<open>The function and the relation\<close>

text \<open>\<open>us\<close> for the first \<open>n\<close> iterations, then \<open>u\<close>.\<close>

definition then_from :: "nat \<Rightarrow> (nat \<Rightarrow> 'a) \<Rightarrow> (nat \<Rightarrow> 'a) \<Rightarrow> nat \<Rightarrow> 'a" where
  "then_from n us u i = (if i < n then us i else u (i - n))"

lemma then_from_0 [simp]: "then_from 0 us u = u"
  by (simp add: then_from_def fun_eq_iff)

lemma then_from_Suc: "then_from (Suc n) (us(n := x)) u = then_from n us (\<lambda>i. case i of 0 \<Rightarrow> x | Suc j \<Rightarrow> u j)"
proof
  fix i
  show "then_from (Suc n) (us(n := x)) u i = then_from n us (\<lambda>i. case i of 0 \<Rightarrow> x | Suc j \<Rightarrow> u j) i"
  proof (cases "i \<le> n")
    case False
    then have "i - n = Suc (i - Suc n)"
      by simp
    with False show ?thesis
      by (simp add: then_from_def)
  qed (auto simp: then_from_def)
qed

lemma vcpu_reaches_run:
  "vcpu_reaches H S m m1 \<Longrightarrow>
     \<exists>us n. \<forall>u k. vcpu_run H S (then_from n us u) (n + k) m = vcpu_run H S u k m1"
proof (induction rule: vcpu_reaches.induct)
  case start
  show ?case by (rule exI, rule exI [of _ 0]) simp
next
  case (again m1 u m2)
  then obtain us n where us: "\<And>u' k. vcpu_run H S (then_from n us u') (n + k) m = vcpu_run H S u' k m1"
    by blast
  have "vcpu_run H S (then_from (Suc n) (us(n := u)) u') (Suc n + k) m = vcpu_run H S u' k m2" for u' k
    using us [of "\<lambda>i. case i of 0 \<Rightarrow> u | Suc j \<Rightarrow> u' j" "Suc k"] again.hyps(2)
    by (simp add: then_from_Suc)
  then show ?case by blast
qed

lemma vcpu_ends_run:
  assumes "vcpu_ends H S m m'"
  shows "\<exists>u n. vcpu_run H S u n m = Stopped m'"
proof -
  obtain m1 u where m1: "vcpu_reaches H S m m1" and last: "vcpu_step H S u m1 = Some (True, m')"
    using assms by (rule vcpu_endsE)
  obtain us n where us: "\<And>u' k. vcpu_run H S (then_from n us u') (n + k) m = vcpu_run H S u' k m1"
    using vcpu_reaches_run [OF m1] by blast
  have "vcpu_run H S (\<lambda>i. u) (Suc 0) m1 = Stopped m'"
    using last by simp
  with us show ?thesis by metis
qed

lemma vcpu_ends_iff: "vcpu_ends H S m m' \<longleftrightarrow> (\<exists>u n. \<forall>k. vcpu_run H S u (n + k) m = Stopped m')"
proof
  assume "vcpu_ends H S m m'"
  then show "\<exists>u n. \<forall>k. vcpu_run H S u (n + k) m = Stopped m'"
    using vcpu_ends_run vcpu_run_more by metis
next
  assume "\<exists>u n. \<forall>k. vcpu_run H S u (n + k) m = Stopped m'"
  then obtain u n where "vcpu_run H S u n m = Stopped m'"
    by (metis add_0_right)
  with vcpu_run_outcome [OF vcpu_reaches.start this] show "vcpu_ends H S m m'"
    by auto
qed

end
