(* ===== verification/CpuProperties.thy ===== *)
theory CpuProperties
  imports DemoProcess Progress
begin

text \<open>
  The properties of \<open>src/src/vcpu.c\<close>, \<open>src/src/emu.c\<close> and \<open>src/src/emu_syscall.c\<close>,
  each with an instance on the concrete hypervisor and system of \<open>DemoProcess\<close>.
\<close>

section \<open>The run loop\<close>

text \<open>C5: whatever the guest does and whatever exits it causes, the run loop never meets
  undefined behaviour, and after any number of iterations, stopped or not, the memory
  invariant holds and the regions and the page table root are those of the start.\<close>

theorem vcpu_run_keeps_memory_safe:
  assumes "mem_inv m" "os_ok S" "plugin_ok (plugin_table m)" "hv_run_ok H"
  shows "\<exists>m'. (vcpu_run H S u n m = Running m' \<or> vcpu_run H S u n m = Stopped m')
    \<and> mem_inv m' \<and> mem_regions m' = mem_regions m \<and> pml4_gpa m' = pml4_gpa m"
proof -
  obtain m' where "vcpu_run H S u n m = Running m' \<or> vcpu_run H S u n m = Stopped m'" "keeps m m'"
    using vcpu_run_keeps [OF assms] by blast
  with keeps_mem_inv [OF this(2) assms(1)] show ?thesis
    by (auto simp: keeps_def)
qed

definition halt_exit :: demo_exit where
  "halt_exit = \<lparr>ex_reason = 12, ex_qual = 0, ex_len = 1, ex_regs = []\<rparr>"

definition cpuid_exit :: demo_exit where
  "cpuid_exit = \<lparr>ex_reason = 10, ex_qual = 0, ex_len = 2, ex_regs = [(HV_X86_RAX, 0x80000000)]\<rparr>"

definition demo_locals :: locals where
  "demo_locals = \<lparr>u_verify = (\<lambda>i. 0), u_entry = 0, u_ret = 0, u_ret32 = 0, u_efer = 0, u_entryctls = 0\<rparr>"

theorem vcpu_run_keeps_memory_safe_witness:
  "\<exists>m'. (vcpu_run demo_hv demo_os (\<lambda>i. demo_locals) 2 (demo_process [] [] [cpuid_exit, halt_exit]) = Running m'
     \<or> vcpu_run demo_hv demo_os (\<lambda>i. demo_locals) 2 (demo_process [] [] [cpuid_exit, halt_exit]) = Stopped m')
     \<and> mem_inv m'"
  using vcpu_run_keeps_memory_safe [OF demo_process_memory(1) demo_os_ok _ demo_run_ok,
      of "[]" "[]" "[cpuid_exit, halt_exit]" "\<lambda>i. demo_locals" 2] no_plugin_ok
  by auto


lemma demo_halt:
  "\<exists>m'. vcpu_run demo_hv demo_os (\<lambda>i. demo_locals) 1 (demo_process [] [] [halt_exit]) = Stopped m'"
  by (simp add: vcpu_step_def vcpu_exit_def demo_hv_def demo_run_def halt_exit_def read_vmcs_def Let_def)




section \<open>Exits\<close>

text \<open>Which exits end the loop. With distinct reason codes, HLT stops, and so do an MSR
  access other than EFER and an exit that is neither in the switch nor a system call; in all
  these cases the state is left as it is. EPT violations and interrupts go on unchanged.\<close>

lemma vcpu_exit_stops:
  assumes ok: "hv_regs_ok H rg vc" and "inj (vmx_reason_code H)"
    and reason: "reason = vc (world m) VMCS_RO_EXIT_REASON"
  shows "(reason = vmx_reason_code H VMX_REASON_HLT \<longrightarrow> vcpu_exit H S u m = Some (True, m))
    \<and> (reason \<in> {vmx_reason_code H VMX_REASON_IRQ, vmx_reason_code H VMX_REASON_EPT_VIOLATION}
        \<longrightarrow> vcpu_exit H S u m = Some (False, m))
    \<and> (reason \<in> {vmx_reason_code H VMX_REASON_RDMSR, vmx_reason_code H VMX_REASON_WRMSR}
        \<and> (ucast (rg (world m) HV_X86_RCX) :: u32) \<noteq> 0xc0000080 \<longrightarrow> vcpu_exit H S u m = Some (True, m))
    \<and> (reason \<notin> range (vmx_reason_code H) \<and> rg (world m) HV_X86_RCX < 2
        \<longrightarrow> vcpu_exit H S u m = Some (True, m))"
proof -
  have inj: "vmx_reason_code H a = vmx_reason_code H b \<longleftrightarrow> a = b" for a b
    using assms(2) by (auto dest: injD)
  have r: "read_vmcs H m VMCS_RO_EXIT_REASON 0 = reason"
    using ok reason by (simp add: read_vmcs_ok)
  have out: "reason \<noteq> vmx_reason_code H a" if "reason \<notin> range (vmx_reason_code H)" for a
    using that by auto
  have msr: "emu_rdmsr H m = (1, m)" "emu_wrmsr H m = (1, m)"
    if "(ucast (rg (world m) HV_X86_RCX) :: u32) \<noteq> 0xc0000080"
    using that ok by (simp_all add: emu_rdmsr_def emu_wrmsr_def rreg_ok read_reg_ok)
  have low: "vcpu_unhandled H S u m = Some (True, m)" if "rg (world m) HV_X86_RCX < 2"
    using that ok by (simp add: vcpu_unhandled_def read_reg_ok Let_def linorder_not_less [symmetric])
  show ?thesis
    unfolding vcpu_exit_def r Let_def using msr low out
    by (auto simp: inj)
qed

lemma vcpu_exit_stops_witness:
  "vcpu_exit demo_hv demo_os demo_locals (demo_process [] [(VMCS_RO_EXIT_REASON, 12)] [])
     = Some (True, demo_process [] [(VMCS_RO_EXIT_REASON, 12)] [])"
proof -
  have "inj (vmx_reason_code demo_hv)"
  proof (rule injI)
    fix a b assume "vmx_reason_code demo_hv a = vmx_reason_code demo_hv b"
    then show "a = b"
      by (cases a; cases b) (simp_all add: demo_hv_def)
  qed
  moreover have "12 = vmx_reason_code demo_hv VMX_REASON_HLT"
    by (simp add: demo_hv_def)
  ultimately show ?thesis
    using vcpu_exit_stops [OF demo_regs_ok, of 12 "demo_process [] [(VMCS_RO_EXIT_REASON, 12)] []"] by simp
qed

text \<open>C24: an exit outside the switch is taken for a system call exactly when the two bytes
  before the address in RCX, found through the page tables, are 0F 05. Then the guest will go
  on at RCX, and the loop stops iff the call's handler reports an error or the user quits.\<close>

theorem vcpu_exit_detects_syscall:
  assumes ok: "hv_regs_ok H rg vc" and inv: "mem_inv m"
    and out: "vc (world m) VMCS_RO_EXIT_REASON \<notin> range (vmx_reason_code H)"
    and rcx: "rcx = rg (world m) HV_X86_RCX" "2 \<le> rcx"
    and g: "gva_to_gpa (u_entry u) m (rcx - 2) = Some g"
  shows "vcpu_exit H S u m =
    (if gbyte m g = Some 0x0f \<and> gbyte m (g + 1) = Some 0x05
     then map_option (\<lambda>(r, m'). (r \<noteq> 0, m')) (emu_syscall H S u (wreg H HV_X86_RIP rcx m))
     else Some (True, m))"
proof -
  have r: "read_vmcs H m VMCS_RO_EXIT_REASON 0 \<noteq> vmx_reason_code H a" for a
    using ok out by (auto simp: read_vmcs_ok)
  have rcx': "read_reg H m HV_X86_RCX 0 = rcx"
    using ok rcx(1) by (simp add: read_reg_ok)
  have two: "2 \<le> INT_MAX" "(2 :: nat) = Suc (Suc 0)"
    by (simp_all add: INT_MAX_def)
  let ?bs = "peek (gbyte m) g (span (gbyte m) g 2)"
  have read: "vm_mem_read m g 2 = Some ?bs"
    using gm.read_law [OF inv two(1)] .
  have "length ?bs = 2 \<and> overlay bytes16 word16 0 ?bs = 0x050f
      \<longleftrightarrow> gbyte m g = Some 0x0f \<and> gbyte m (g + 1) = Some 0x05"
  proof (cases "gbyte m g = None \<or> gbyte m (g + 1) = None")
    case True
    then show ?thesis
      by (auto simp: two(2) split: option.splits)
  next
    case False
    then obtain a b where ab: "gbyte m g = Some a" "gbyte m (g + 1) = Some b"
      by auto
    then have bs: "?bs = [a, b]"
      by (simp add: two(2) peek_Suc)
    have "[a, b] = bytes16 0x050f \<longleftrightarrow> word16 [a, b] = 0x050f"
      by (metis codec16.dec_enc codec16.enc_dec length_Cons list.size(3) two(2))
    moreover have "le_bytes 2 v = [of_nat v, of_nat (v div 256)]" for v
      by (simp only: two(2) le_bytes.simps)
    then have "bytes16 0x050f = [0x0f, 0x05]"
      by (simp add: bytes16_def)
    ultimately show ?thesis
      unfolding bs by (simp add: codec16.overlay_full ab)
  qed
  note op = this
  have "vcpu_exit H S u m = vcpu_unhandled H S u m"
    unfolding vcpu_exit_def Let_def by (simp only: r if_False)
  also have "\<dots> = (if length ?bs = 2 \<and> overlay bytes16 word16 0 ?bs = 0x050f
      then emu_syscall H S u (wreg H HV_X86_RIP rcx m) \<bind> (\<lambda>(r, m). Some (r \<noteq> 0, m))
      else Some (True, m))"
    unfolding vcpu_unhandled_def Let_def rcx' by (simp only: rcx(2) g read bind.bind_lunit if_True)
  finally show ?thesis
    unfolding op by (cases "emu_syscall H S u (wreg H HV_X86_RIP rcx m)") auto
qed

theorem vcpu_exit_detects_syscall_witness:
  "vcpu_exit demo_hv demo_os demo_locals
     (demo_process [(HV_X86_RCX, 0x12)] [(VMCS_RO_EXIT_REASON, 99)] [])
   = Some (True, demo_process [(HV_X86_RCX, 0x12)] [(VMCS_RO_EXIT_REASON, 99)] [])"
proof -
  let ?m = "demo_process [(HV_X86_RCX, 0x12)] [(VMCS_RO_EXIT_REASON, 99)] []"
  have "99 \<noteq> vmx_reason_code demo_hv a" for a
    by (cases a) (simp_all add: demo_hv_def)
  then have out: "dw_vmcs (world ?m) VMCS_RO_EXIT_REASON \<notin> range (vmx_reason_code demo_hv)"
    by auto
  have g: "gva_to_gpa (u_entry demo_locals) ?m (0x12 - 2) = Some 0x10"
    using demo_process_translate [of "0x10"] by simp
  have b: "gbyte ?m 0x10 = Some 0"
    by (simp add: demo_process_memory root_machine_byte)
  show ?thesis
    using vcpu_exit_detects_syscall [OF demo_regs_ok demo_process_memory(1) out _ _ g, of demo_os] b
    by simp
qed

text \<open>An access to CR4 or CR8, and any access to CR0 other than a MOV to it, is ignored:
  the handler returns 0 with an unchanged state, so the loop runs the guest again at the
  same instruction.\<close>

lemma emu_mov_cr_ignores_others:
  assumes "hv_regs_ok H rg vc" "q = vc (world m) VMCS_RO_EXIT_QUALIFIC"
    and "q AND 0xf \<noteq> 0 \<or> q AND 0xf0 \<noteq> 0"
  shows "emu_mov_cr H e1 e2 m = (0, m)"
  using assms by (auto simp: emu_mov_cr_def read_vmcs_ok Let_def)

lemma emu_mov_cr_ignores_others_instance:
  "emu_mov_cr demo_hv 0 0 (demo_process [] [(VMCS_RO_EXIT_QUALIFIC, 4)] [])
     = (0, demo_process [] [(VMCS_RO_EXIT_QUALIFIC, 4)] [])"
  by (rule emu_mov_cr_ignores_others [OF demo_regs_ok, of 4]) simp_all

section \<open>Emulated instructions\<close>

text \<open>C25: WRMSR and RDMSR of EFER round trip: what the guest wrote from EDX:EAX is what a
  later read puts there, zero-extended; each access moves RIP by 2 and touches neither memory
  nor another register, and neither stops the loop.\<close>

theorem efer_wrmsr_rdmsr:
  assumes "hv_regs_ok H rg vc" "(ucast (rg (world m) HV_X86_RCX) :: u32) = 0xc0000080"
    and "emu_wrmsr H m = (s1, m1)" "emu_rdmsr H m1 = (s2, m2)"
  shows "s1 = 0 \<and> s2 = 0 \<and> same_memory m m2
    \<and> rg (world m2) = (rg (world m))(
        HV_X86_RAX := ucast (ucast (rg (world m) HV_X86_RAX) :: u32),
        HV_X86_RDX := ucast (ucast (rg (world m) HV_X86_RDX) :: u32),
        HV_X86_RIP := rg (world m) HV_X86_RIP + 4)"
proof -
  note w = emu_wrmsr_regs [OF assms(1,2), unfolded assms(3), simplified]
  have "(ucast (rg (world m1) HV_X86_RCX) :: u32) = 0xc0000080"
    using assms(2) by (simp add: w(2))
  note r = emu_rdmsr_regs [OF assms(1) this refl, unfolded assms(4), simplified]
  have "same_memory m m2"
    using emu_same_memory(1) [of m1 H] emu_same_memory(2) [of m H] assms(3,4)
    by (auto intro: same_memory_trans)
  with w(1) r(1) show ?thesis
    unfolding r(2) w(2,3) join_edx_eax by (simp add: fun_eq_iff)
qed

theorem efer_wrmsr_rdmsr_witness:
  "dw_regs (world (snd (emu_rdmsr demo_hv (snd (emu_wrmsr demo_hv
     (demo_process [(HV_X86_RCX, 0xc0000080), (HV_X86_RAX, 0x500), (HV_X86_RDX, 0x100000007)] [] []))))))
     HV_X86_RDX = 7"
proof -
  let ?m = "demo_process [(HV_X86_RCX, 0xc0000080), (HV_X86_RAX, 0x500), (HV_X86_RDX, 0x100000007)] [] []"
  have "(ucast (dw_regs (world ?m) HV_X86_RCX) :: u32) = 0xc0000080"
    by simp
  from efer_wrmsr_rdmsr [OF demo_regs_ok this surjective_pairing surjective_pairing]
  show ?thesis by simp
qed

text \<open>C26: a MOV to CR0 goes to the shadow register and to CR0; when it turns paging on while
  EFER.LME is set, EFER also gets LMA, NXE and SCE and the entry controls the bit for a
  long-mode guest, otherwise both stay; RIP moves by 3 and the loop goes on.\<close>

theorem emu_mov_cr0_enters_long_mode:
  assumes ok: "hv_regs_ok H rg vc"
    and q: "q = vc (world m) VMCS_RO_EXIT_QUALIFIC" "q AND 0xf = 0" "q AND 0xf0 = 0"
    and v: "v = vmx_get_guest_reg H m (uint (drop_bit 8 q AND 0xf))"
    and efer: "efer = vc (world m) VMCS_GUEST_IA32_EFER"
    and long: "long \<longleftrightarrow> v AND 0x80000000 \<noteq> 0 \<and> efer AND EFER_LME \<noteq> 0"
    and run: "emu_mov_cr H e1 e2 m = (stop, m')"
  shows "stop = 0 \<and> same_memory m m' \<and> vc (world m') VMCS_CTRL_CR0_SHADOW = v
    \<and> rg (world m') = (rg (world m))(HV_X86_CR0 := v, HV_X86_RIP := rg (world m) HV_X86_RIP + 3)
    \<and> vc (world m') VMCS_GUEST_IA32_EFER = (if long then efer OR 0xC01 else efer)
    \<and> vc (world m') VMCS_CTRL_VMENTRY_CONTROLS =
        (if long then vc (world m) VMCS_CTRL_VMENTRY_CONTROLS OR 0x200
         else vc (world m) VMCS_CTRL_VMENTRY_CONTROLS)"
proof -
  have bits: "EFER_LMA OR EFER_NXE OR EFER_SCE = 0xC01" "VM_ENTRY_GUEST_LMA = 0x200"
    by (simp_all add: EFER_LMA_def EFER_NXE_def EFER_SCE_def VM_ENTRY_GUEST_LMA_def push_bit_eq_mult)
  have wv: "rg (world (write_vmcs H f x m)) r = rg (world m) r"
    if "f \<noteq> VMCS_GUEST_CR0" "\<not> read_only f" for f x r and m :: "('a, 'd) machine_scheme"
    using write_vmcs_ok(2) [OF ok that(2)] that(1) by blast
  have wr: "vc (world (wreg H r x m)) f = vc (world m) f"
    if "f \<noteq> VMCS_GUEST_CR0" for f x r and m :: "('a, 'd) machine_scheme"
    using wreg_ok(2) [OF ok] that by blast
  note s = wv wr rreg_ok [OF ok] read_vmcs_ok [OF ok] wreg_ok(1) [OF ok] write_vmcs_ok(1) [OF ok]
    read_only_def bits
  have "same_memory m m'"
    using emu_same_memory(3) [of m H e1 e2] run by simp
  moreover have "(stop, m') = emu_mov_cr H e1 e2 m"
    using run by simp
  moreover note q(1) [symmetric] v [symmetric] efer [symmetric]
  ultimately show ?thesis
    unfolding emu_mov_cr_def Let_def long using q(2,3)
    by (cases "v AND 0x80000000 = 0"; cases "efer AND EFER_LME = 0") (simp_all add: s fun_eq_iff)
qed

theorem emu_mov_cr0_enters_long_mode_witness:
  "dw_vmcs (world (snd (emu_mov_cr demo_hv 0 0 (demo_process [(HV_X86_RAX, 0x80000001)]
     [(VMCS_GUEST_IA32_EFER, 0x100)] [])))) VMCS_GUEST_IA32_EFER = 0xD01"
proof -
  let ?m = "demo_process [(HV_X86_RAX, 0x80000001)] [(VMCS_GUEST_IA32_EFER, 0x100)] []"
  have v: "0x80000001 = vmx_get_guest_reg demo_hv ?m (uint (drop_bit 8 (0 :: u64) AND 0xf))"
    by (simp add: vmx_get_guest_reg_def rreg_ok [OF demo_regs_ok])
  have q: "0 = dw_vmcs (world ?m) VMCS_RO_EXIT_QUALIFIC" "0x100 = dw_vmcs (world ?m) VMCS_GUEST_IA32_EFER"
    by simp_all
  have long: "True \<longleftrightarrow> (0x80000001 :: u64) AND 0x80000000 \<noteq> 0 \<and> 0x100 AND EFER_LME \<noteq> 0"
    by (simp add: EFER_LME_def)
  from emu_mov_cr0_enters_long_mode [OF demo_regs_ok q(1) _ _ v q(2) long surjective_pairing]
  show ?thesis by simp
qed

text \<open>CPUID advertises a long-mode processor: leaf 80000000 answers 80000001, leaf
  80000001 sets bit 29 of RDX, every other leaf leaves the registers as they are; RIP moves by
  2 and the loop goes on.\<close>

lemma emu_cpuid_long_mode:
  assumes "hv_regs_ok H rg vc" "emu_cpuid H m = (stop, m')"
  shows "stop = 0 \<and> same_memory m m'
    \<and> rg (world m') = (if rg (world m) HV_X86_RAX = 0x80000000
        then (rg (world m))(HV_X86_RAX := 0x80000001)
        else if rg (world m) HV_X86_RAX = 0x80000001 then (rg (world m))(HV_X86_RDX := 0x20000000)
        else rg (world m))(HV_X86_RIP := rg (world m) HV_X86_RIP + 2)"
  using emu_cpuid_regs [OF assms(1), of m] emu_same_memory(4) [of m H] assms(2) by simp

lemma emu_cpuid_long_mode_instance:
  "dw_regs (world (snd (emu_cpuid demo_hv (demo_process [(HV_X86_RAX, 0x80000000)] [] [])))) HV_X86_RAX = 0x80000001"
  using emu_cpuid_long_mode [OF demo_regs_ok surjective_pairing, of "demo_process [(HV_X86_RAX, 0x80000000)] [] []"]
  by simp

section \<open>Setup and the stack\<close>

text \<open>\<open>push64\<close> moves RSP down by 8 and leaves the value there, at the guest physical
  address RSP, and changes no other byte and no other register; when the 8 bytes are not all
  mapped it returns -1 and RSP stays.\<close>

lemma push64_stores_word:
  assumes "mem_inv m" "hv_regs_ok H rg vc" and sp: "sp = rg (world m) HV_X86_RSP - 8"
  shows "\<exists>r m'. push64 H m v = Some (r, m') \<and> mem_inv m'
    \<and> (if avail (gbyte m) sp 8
       then r = 0 \<and> rg (world m') = (rg (world m))(HV_X86_RSP := sp) \<and> read_u64 m' sp old = Some v
         \<and> (\<forall>x. in_block sp 8 x \<or> gbyte m' x = gbyte m x)
       else r = -1 \<and> rg (world m') = rg (world m))"
proof -
  have len: "length (bytes64 v) = 8" "length (bytes64 v) \<le> INT_MAX"
    by (simp_all add: codec64.length_enc INT_MAX_def)
  have sp': "sp = rg (world m) HV_X86_RSP - of_nat (length (bytes64 v))"
    using sp len(1) by simp
  obtain r m' where p: "push64 H m v = Some (r, m')" "mem_inv m'"
    "avail (gbyte m) sp 8 \<Longrightarrow> r = 0 \<and> rg (world m') = (rg (world m))(HV_X86_RSP := sp)
       \<and> vm_mem_read m' sp 8 = Some (bytes64 v) \<and> gbyte m' = poke (gbyte m) sp (bytes64 v)"
    "\<not> avail (gbyte m) sp 8 \<Longrightarrow> r = -1 \<and> rg (world m') = rg (world m)"
    using push_spec [OF assms(1,2) len(2) sp'] unfolding push64_def len(1) by metis
  have "read_u64 m' sp old = Some v" if "vm_mem_read m' sp 8 = Some (bytes64 v)"
    using that by (simp add: read_u64_def codec64.overlay_enc)
  moreover have "in_block sp 8 x \<or> poke (gbyte m) sp (bytes64 v) x = gbyte m x" for x
    by (subst poke_apply) (simp_all add: len(1))
  ultimately show ?thesis
    using p by (cases "avail (gbyte m) sp 8") auto
qed

lemma push64_stores_word_instance:
  "\<exists>m'. push64 demo_hv (demo_process [(HV_X86_RSP, 0x1000)] [] []) 0x1122334455667788 = Some (0, m')
     \<and> read_u64 m' 0xFF8 0 = Some 0x1122334455667788"
proof -
  let ?m = "demo_process [(HV_X86_RSP, 0x1000)] [] []"
  have "unat (0xFF8 + of_nat i :: u64) = 0xFF8 + i" if "i < 8" for i
    using that by (subst unat_add_of_nat) simp_all
  then have "avail (gbyte ?m) 0xFF8 8"
    by (simp add: avail_def demo_process_memory root_machine_byte)
  with push64_stores_word [OF demo_process_memory(1) demo_regs_ok, of "0xFF8" "[(HV_X86_RSP, 0x1000)]" "[]" "[]"
      "0x1122334455667788" 0]
  show ?thesis by auto
qed


definition setup_machine :: "demo_world machine" where
  "setup_machine = full_machine\<lparr>mem_regions := [\<lparr>r_gpa = 0, r_npages = 16, r_hva = 0x100000\<rparr>]\<rparr>"

lemma setup_machine_ok: "mem_inv setup_machine" "avail (gbyte setup_machine) 0 32"
  "avail (gbyte setup_machine) 0x6FFC 4"
proof -
  show inv: "mem_inv setup_machine"
    by (simp add: setup_machine_def full_machine_def mem_inv_def backed_def regions_wf_Cons region_ok_def
        page_aligned_def r_hi_def r_lo_def r_size_def h_lo_def)
  have m: "gbyte setup_machine g \<noteq> None" if "unat g < 0x10000" for g
    using gbyte_mapped_iff [OF inv, of g] that
    by (simp add: setup_machine_def full_machine_def in_region_def r_lo_def r_hi_def r_size_def)
  show "avail (gbyte setup_machine) 0 32"
    unfolding avail_def using m by (simp add: unat_of_nat_small)
  have "unat (0x6FFC + of_nat i :: u64) = 0x6FFC + i" if "i < 4" for i
    using that by (subst unat_add_of_nat) simp_all
  then show "avail (gbyte setup_machine) 0x6FFC 4"
    unfolding avail_def using m by simp
qed


end
