(* ===== verification/SyscallProperties.thy ===== *)
theory SyscallProperties
  imports DemoProcess
begin

text \<open>
  The properties of the system calls of \<open>src/src/emu_syscall.c\<close> and of the plugins of
  \<open>src/src/plugin.c\<close>, with instances on the concrete system of \<open>DemoProcess\<close>.
\<close>

section \<open>All calls\<close>

definition call_locals :: locals where
  "call_locals = \<lparr>u_verify = (\<lambda>i. 0), u_entry = 0, u_ret = 0, u_ret32 = 0, u_efer = 0, u_entryctls = 0\<rparr>"

text \<open>C14: every system call is defined and returns -1, 0 or 1; an unknown number returns -1
  and changes nothing. The regions and the invariant stay, and host memory changes only for
  \<open>read\<close>, in the bytes counted from where the first byte of its buffer translates to.\<close>

theorem emu_syscall_effects:
  assumes inv: "mem_inv m" and S: "os_ok S" and P: "plugin_ok (plugin_table m)" and ok: "hv_regs_ok H rg vc"
    and g: "gva_to_gpa (u_entry u) m (rg (world m) HV_X86_RSI) = Some g"
    and code: "code = rg (world m) HV_X86_RAX"
  shows "\<exists>r m'. emu_syscall H S u m = Some (r, m') \<and> r \<in> {-1, 0, 1} \<and> mem_inv m'
    \<and> mem_regions m' = mem_regions m \<and> plugin_table m' = plugin_table m
    \<and> (code \<notin> {SYSCALL_READ, SYSCALL_WRITE, SYSCALL_OPEN, SYSCALL_CLOSE} \<longrightarrow> r = -1 \<and> m' = m)
    \<and> (\<forall>a. heap m' a = heap m a
        \<or> code = SYSCALL_READ \<and> in_block (gpa_to_hva m g) (unat (rg (world m) HV_X86_RDX)) a)"
proof -
  have rr: "rreg H m r = rg (world m) r" for r
    using ok by (rule rreg_ok)
  let ?p = "if code = SYSCALL_READ then gpa_to_hva m g else 0"
  let ?n = "if code = SYSCALL_READ then unat (rg (world m) HV_X86_RDX) else 0"
  have codes: "SYSCALL_READ \<noteq> SYSCALL_WRITE" "SYSCALL_READ \<noteq> SYSCALL_OPEN" "SYSCALL_READ \<noteq> SYSCALL_CLOSE"
    by (simp_all add: SYSCALL_READ_def SYSCALL_WRITE_def SYSCALL_OPEN_def SYSCALL_CLOSE_def)
  note parts = emu_syscall_write_returns [OF inv S P, of H u] emu_syscall_open_returns [OF inv S P, of H u]
    emu_syscall_close_returns [OF S P, of H u]
  have rd: "returns (gpa_to_hva m g) (unat (rg (world m) HV_X86_RDX)) m (emu_syscall_read H S u m)"
    using emu_syscall_read_returns [OF inv S P g [folded rr]] unfolding rr .
  have "returns 0 0 m (Some (-1, m))"
    by (simp add: returns_def)
  then have "returns ?p ?n m (emu_syscall H S u m)"
    unfolding emu_syscall_def Let_def rr code [symmetric] using parts rd codes by auto
  then obtain r m' where r: "emu_syscall H S u m = Some (r, m')" "r \<in> {-1, 0, 1}" "effect ?p ?n m m'"
    unfolding returns_def by blast
  have t: "heap m' a = heap m a \<or> in_block ?p ?n a" for a
    using r(3) by (auto simp: effect_def touches_def host_def)
  have "heap m' a = heap m a
      \<or> code = SYSCALL_READ \<and> in_block (gpa_to_hva m g) (unat (rg (world m) HV_X86_RDX)) a" for a
    using t [of a]
    by (cases "code = SYSCALL_READ") (simp_all add: in_block_def)
  moreover have "code \<notin> {SYSCALL_READ, SYSCALL_WRITE, SYSCALL_OPEN, SYSCALL_CLOSE} \<longrightarrow> r = -1 \<and> m' = m"
    using r(1) by (auto simp: emu_syscall_def rr code)
  ultimately show ?thesis
    using r effect_mem_inv [OF r(3) inv] by (auto simp: effect_def)
qed

theorem emu_syscall_effects_witness:
  "\<exists>r m'. emu_syscall demo_hv demo_os call_locals
     (demo_process [(HV_X86_RAX, 0x2000004), (HV_X86_RDI, 1), (HV_X86_RSI, 0x10), (HV_X86_RDX, 3)] [] []) = Some (r, m')
     \<and> mem_inv m' \<and> heap m' = heap root_machine"
proof -
  let ?rs = "[(HV_X86_RAX, 0x2000004), (HV_X86_RDI, 1), (HV_X86_RSI, 0x10), (HV_X86_RDX, 3)]"
  have g: "gva_to_gpa (u_entry call_locals) (demo_process ?rs [] [])
      (dw_regs (world (demo_process ?rs [] [])) HV_X86_RSI) = Some 0x10"
    using demo_process_translate [of "0x10"] by simp
  have P: "plugin_ok (plugin_table (demo_process ?rs [] []))"
    by (simp add: no_plugin_ok)
  have "dw_regs (world (demo_process ?rs [] [])) HV_X86_RAX \<noteq> SYSCALL_READ"
    by (simp add: SYSCALL_READ_def)
  with emu_syscall_effects [OF demo_process_memory(1) demo_os_ok P demo_regs_ok g refl]
  show ?thesis by (auto simp: fun_eq_iff)
qed

section \<open>Buffers\<close>

text \<open>
  A buffer of \<open>n\<close> bytes at guest virtual address \<open>gva\<close> that the page tables map to
  consecutive guest physical addresses from \<open>g\<close> on, inside one region.
\<close>

definition buffer_at :: "('w, 'z) machine_scheme \<Rightarrow> u64 \<Rightarrow> u64 \<Rightarrow> nat \<Rightarrow> bool" where
  "buffer_at m gva g n \<longleftrightarrow> (\<forall>i < n. \<forall>e0. gva_to_gpa e0 m (gva + of_nat i) = Some (g + of_nat i))
     \<and> (\<exists>p \<in> set (mem_regions m). in_region p g \<and> unat g + n \<le> r_hi p)"

lemma buffer_at_cong:
  assumes "mem_regions m = mem_regions m'" "heap m = heap m'" "pml4_gpa m = pml4_gpa m'"
  shows "buffer_at m gva g n \<longleftrightarrow> buffer_at m' gva g n"
  unfolding buffer_at_def gva_to_gpa_cong [OF assms] assms(1) ..

lemma region_offset:
  assumes inv: "mem_inv m" and p: "p \<in> set (mem_regions m)" "in_region p g" "unat g + n \<le> r_hi p" and i: "i < n"
  shows "gpa_to_hva m (g + of_nat i) = gpa_to_hva m g + of_nat i" and "in_region p (g + of_nat i)"
proof -
  have "r_hi p < 2 ^ 64"
    using mem_inv_region_ok [OF inv p(1)] by (simp add: region_ok_def)
  then have "unat (g + of_nat i) = unat g + i"
    using p(3) i by (intro unat_add_of_nat) simp
  then show r: "in_region p (g + of_nat i)"
    using p(2,3) i by (simp add: in_region_def)
  show "gpa_to_hva m (g + of_nat i) = gpa_to_hva m g + of_nat i"
    using gpa_to_hva_of_region [OF inv p(1)] p(2) r by simp
qed

lemma buffer_at_verify:
  assumes inv: "mem_inv m" and b: "buffer_at m gva g (unat n)"
  shows "vm_mem_verify u m gva n = Some 0"
proof -
  obtain p where p: "p \<in> set (mem_regions m)" "in_region p g" "unat g + unat n \<le> r_hi p"
    using b by (auto simp: buffer_at_def)
  have "gpa_to_hva m (g + of_nat i) \<noteq> 0" if "i < unat n" for i
    using region_offset(2) [OF inv p that] p(1) gpa_to_hva_in_nonzero_iff [OF mem_inv_wf [OF inv]]
    by (auto simp: gpa_to_hva_def)
  with b show ?thesis
    unfolding vm_mem_verify_def by (intro vm_mem_verify_loop_ok) (auto simp: buffer_at_def)
qed

text \<open>C15: \<open>write\<close> of a buffer that is contiguous in guest physical memory, with no
  plugin and outside interactive mode: the system is given a pointer to exactly the bytes
  that the guest sees through its page tables, and its result is returned in RAX.\<close>

theorem emu_syscall_write_passes_guest_bytes:
  assumes inv: "mem_inv m" and ok: "hv_regs_ok H rg vc" and b: "buffer_at m gva g (unat n)"
    and regs: "rg (world m) HV_X86_RSI = gva" "rg (world m) HV_X86_RDX = n" and n: "0 < n"
    and plain: "cb_write (plugin_table m) = None" "\<not> syscall_interactive m"
    and sys: "os_write S (host m) (ucast (rg (world m) HV_X86_RDI)) (gpa_to_hva m g) n = (ret, h)"
  shows "emu_syscall_write H S u m = Some (0, wreg H HV_X86_RAX ret (set_host h m))
    \<and> (\<forall>i < unat n. \<exists>x. gva_to_gpa e0 m (gva + of_nat i) = Some x
        \<and> heap m (gpa_to_hva m g + of_nat i) = gbyte m x \<and> gbyte m x \<noteq> None)"
proof
  have rr: "rreg H m r = rg (world m) r" for r
    using ok by (rule rreg_ok)
  have "0 < unat n"
    using n by (simp add: word_less_nat_alt)
  then have "gva_to_gpa (u_entry u) m (gva + of_nat 0) = Some (g + of_nat 0)"
    using b unfolding buffer_at_def by blast
  then have g: "gva_to_gpa (u_entry u) m gva = Some g" by simp
  show "emu_syscall_write H S u m = Some (0, wreg H HV_X86_RAX ret (set_host h m))"
    using buffer_at_verify [OF inv b] g plain sys regs
    by (simp add: emu_syscall_write_def rr Let_def ask_quit_def call_or_def get_plugin_ops_def)
  obtain p where p: "p \<in> set (mem_regions m)" "in_region p g" "unat g + unat n \<le> r_hi p"
    using b by (auto simp: buffer_at_def)
  show "\<forall>i < unat n. \<exists>x. gva_to_gpa e0 m (gva + of_nat i) = Some x
        \<and> heap m (gpa_to_hva m g + of_nat i) = gbyte m x \<and> gbyte m x \<noteq> None"
  proof (intro allI impI exI conjI)
    fix i assume i: "i < unat n"
    note r = region_offset [OF inv p i]
    show "gva_to_gpa e0 m (gva + of_nat i) = Some (g + of_nat i)"
      using b i by (simp add: buffer_at_def)
    show mapped: "gbyte m (g + of_nat i) \<noteq> None"
      using gbyte_mapped_iff [OF inv] p(1) r(2) by blast
    then show "heap m (gpa_to_hva m g + of_nat i) = gbyte m (g + of_nat i)"
      unfolding gbyte_def r(1) by (simp split: if_splits)
  qed
qed

lemma demo_buffer: "buffer_at (demo_process rs fs es) 0x10 0x10 3"
proof -
  have "unat (0x10 + of_nat i :: u64) = 0x10 + i" if "i < 3" for i
    using that by (subst unat_add_of_nat) simp_all
  then show ?thesis
    by (simp add: buffer_at_def demo_process_translate root_machine_def in_region_def r_lo_def r_hi_def r_size_def)
qed

theorem emu_syscall_write_passes_guest_bytes_witness:
  "\<exists>m'. emu_syscall_write demo_hv demo_os call_locals
     (demo_process [(HV_X86_RSI, 0x10), (HV_X86_RDX, 3)] [] []) = Some (0, m')"
proof -
  let ?m = "demo_process [(HV_X86_RSI, 0x10), (HV_X86_RDX, 3)] [] []"
  have b: "buffer_at ?m 0x10 0x10 (unat (3 :: u64))"
    using demo_buffer by simp
  show ?thesis
    using emu_syscall_write_passes_guest_bytes [OF demo_process_memory(1) demo_regs_ok b _ _ _ _ _
        surjective_pairing, where u = call_locals and S = demo_os]
    by (simp add: no_plugin_def)
qed



section \<open>Plugins\<close>


definition demo_plugin :: "u8 list plugin_ops" where
  "demo_plugin = no_plugin\<lparr>cb_write := Some (\<lambda>h fd p n old. (0, 7, h))\<rparr>"


text \<open>C33: \<open>load_plugin\<close> returns 0 only when \<open>plugin_init\<close> did; without a path, a library
  or its entry point it returns -1 and leaves the callbacks alone. When \<open>plugin_init\<close> itself
  fails it returns -1 and closes the library, but keeps whatever callbacks were stored.\<close>

theorem load_plugin_result:
  assumes "load_plugin D m path = (r, m')"
  shows "(r = 0 \<or> r = -1) \<and> m'\<lparr>os := os m, heap := heap m, plugin_table := plugin_table m\<rparr> = m
    \<and> (path = None \<longrightarrow> r = -1 \<and> m' = m)
    \<and> (\<forall>p hd h. path = Some p \<and> dlopen D (host m) p = (hd, h) \<longrightarrow>
        (hd = 0 \<or> dlsym D h hd = None \<longrightarrow> r = -1 \<and> plugin_table m' = plugin_table m)
      \<and> (\<forall>init rc ops h'. hd \<noteq> 0 \<and> dlsym D h hd = Some init \<and> init h (plugin_table m) = (rc, ops, h') \<longrightarrow>
          plugin_table m' = ops \<and> (r = 0 \<longleftrightarrow> rc = 0)
          \<and> (rc \<noteq> 0 \<longrightarrow> host m' = dlclose D h' hd)))"
proof -
  have h: "host (m\<lparr>plugin_table := t\<rparr>) = host m" "set_host x (m\<lparr>plugin_table := t\<rparr>) = (set_host x m)\<lparr>plugin_table := t\<rparr>"
    for t x and m :: "('c, 'a, 'b) process_scheme"
    by (simp_all add: host_def set_host_def)
  show ?thesis
    using assms by (auto simp: load_plugin_def Let_def h set_host_def host_def
        split: option.splits prod.splits if_splits)
qed

text \<open>A plugin that stores a callback and then reports failure.\<close>

definition demo_dl :: "u8 list dl_ops" where
  "demo_dl = \<lparr>
     dlopen = (\<lambda>h p. (1, h)),
     dlsym = (\<lambda>h hd. Some (\<lambda>h ops. (1, demo_plugin, h))),
     dlclose = (\<lambda>h hd. h)\<rparr>"

theorem load_plugin_result_witness:
  "\<exists>m'. load_plugin demo_dl (demo_process [] [] []) (Some ''p'') = (-1, m') \<and> plugin_table m' = demo_plugin"
proof -
  obtain r m' where l: "load_plugin demo_dl (demo_process [] [] []) (Some ''p'') = (r, m')"
    by fastforce
  obtain a b where h: "host (demo_process [] [] []) = (a, b)" by fastforce
  have "(r = 0 \<or> r = -1) \<and> plugin_table m' = demo_plugin \<and> r \<noteq> 0"
    using load_plugin_result [OF l] by (auto simp: demo_dl_def h)

  then show ?thesis using l by auto
qed

end
