(* ===== verification/MachoParser.thy ===== *)
theory MachoParser
  imports Prelude
begin

text \<open>
  \<open>src/src/macho_parser.c\<close>: the reader of Mach-O files. The layout of the structures, the
  constants and the byte-swapping functions come from Apple's headers and are a parameter.
  The standard streams and \<open>calloc\<close> are modelled: a file has its bytes and a position, a
  seek to a negative offset fails and leaves the position alone, a short read stores the
  bytes there are, and a fresh buffer holds zeros. \<open>int\<close> offsets are 32-bit words read
  with their sign.
\<close>

section \<open>What comes from the headers of the system\<close>

record macho_headers =
  MH_MAGIC_64 :: u32
  MH_CIGAM_64 :: u32
  MH_CIGAM :: u32
  FAT_MAGIC :: u32
  FAT_CIGAM :: u32
  LC_SEGMENT :: u32
  LC_SEGMENT_64 :: u32
  LC_MAIN :: u32
  CPU_TYPE_I386 :: u32
  CPU_TYPE_X86_64 :: u32
  CPU_TYPE_ARM :: u32
  CPU_TYPE_ARM64 :: u32
  sizeof_mach_header :: nat
  sizeof_mach_header_64 :: nat
  sizeof_load_command :: nat
  sizeof_segment_command :: nat
  sizeof_segment_command_64 :: nat
  sizeof_entry_point_command :: nat
  sizeof_fat_header :: nat
  sizeof_fat_arch :: nat
  mh_ncmds :: "u8 list \<Rightarrow> u32"
  mh_cputype :: "u8 list \<Rightarrow> u32"
  mh64_ncmds :: "u8 list \<Rightarrow> u32"
  mh64_cputype :: "u8 list \<Rightarrow> u32"
  lc_cmd :: "u8 list \<Rightarrow> u32"
  lc_cmdsize :: "u8 list \<Rightarrow> u32"
  seg_segname :: "u8 list \<Rightarrow> u8 list"
  seg64_segname :: "u8 list \<Rightarrow> u8 list"
  ep_entryoff :: "u8 list \<Rightarrow> u64"
  fat_nfat_arch :: "u8 list \<Rightarrow> u32"
  fat_offset :: "u8 list \<Rightarrow> u32"
  swap_mach_header :: "u8 list \<Rightarrow> u8 list"
  swap_mach_header_64 :: "u8 list \<Rightarrow> u8 list"
  swap_load_command :: "u8 list \<Rightarrow> u8 list"
  swap_segment_command :: "u8 list \<Rightarrow> u8 list"
  swap_segment_command_64 :: "u8 list \<Rightarrow> u8 list"
  swap_fat_header :: "u8 list \<Rightarrow> u8 list"
  swap_fat_arch :: "u8 list \<Rightarrow> u8 list"

section \<open>Streams and buffers\<close>

text \<open>The messages passed to \<open>DLOG\<close>.\<close>

datatype macho_msg = Commands string u32 | Segname "u8 list" | Entry_point u64

text \<open>
  A stream, with the buffers that its reader allocated and has not freed, the number of
  allocator calls, and the messages so far.
\<close>

record stream =
  s_bytes :: "u8 list"
  s_pos :: nat
  s_callocs :: nat
  s_live :: nat
  s_log :: "macho_msg list"

definition fseek_set :: "u32 \<Rightarrow> stream \<Rightarrow> stream" where
  "fseek_set off f = (if sint off < 0 then f else f\<lparr>s_pos := nat (sint off)\<rparr>)"

definition fread :: "nat \<Rightarrow> stream \<Rightarrow> u8 list \<times> stream" where
  "fread n f =
     (let bs = take n (drop (s_pos f) (s_bytes f)) in (bs, f\<lparr>s_pos := s_pos f + length bs\<rparr>))"

definition free_buffer :: "stream \<Rightarrow> stream" where
  "free_buffer f = f\<lparr>s_live := s_live f - 1\<rparr>"

definition dlog :: "macho_msg \<Rightarrow> stream \<Rightarrow> stream" where
  "dlog msg f = f\<lparr>s_log := s_log f @ [msg]\<rparr>"

text \<open>\<open>int\<close> plus a non-negative \<open>int\<close>: overflow is undefined.\<close>

definition int_add :: "u32 \<Rightarrow> nat \<Rightarrow> u32 option" where
  "int_add a n = (if sint a + int n > int INT_MAX then None else Some (a + of_nat n))"

section \<open>Operations\<close>

text \<open>\<open>u\<close> is the uninitialised local \<open>magic\<close>.\<close>

definition read_magic :: "u32 \<Rightarrow> stream \<Rightarrow> u32 \<Rightarrow> u32 \<times> stream" where
  "read_magic u f offset =
     (let (bs, f) = fread 4 (fseek_set offset f) in (overlay bytes32 word32 u bs, f))"

definition is_magic_64 :: "macho_headers \<Rightarrow> u32 \<Rightarrow> bool" where
  "is_magic_64 M magic \<longleftrightarrow> magic = MH_MAGIC_64 M \<or> magic = MH_CIGAM_64 M"

definition should_swap_bytes :: "macho_headers \<Rightarrow> u32 \<Rightarrow> bool" where
  "should_swap_bytes M magic \<longleftrightarrow> magic = MH_CIGAM M \<or> magic = MH_CIGAM_64 M \<or> magic = FAT_CIGAM M"

definition is_fat :: "macho_headers \<Rightarrow> u32 \<Rightarrow> bool" where
  "is_fat M magic \<longleftrightarrow> magic = FAT_MAGIC M \<or> magic = FAT_CIGAM M"

definition cpu_type_names :: "macho_headers \<Rightarrow> (u32 \<times> string) list" where
  "cpu_type_names M = [(CPU_TYPE_I386 M, ''i386''), (CPU_TYPE_X86_64 M, ''x86_64''),
     (CPU_TYPE_ARM M, ''arm''), (CPU_TYPE_ARM64 M, ''arm64'')]"

fun cpu_type_name_in :: "(u32 \<times> string) list \<Rightarrow> u32 \<Rightarrow> string" where
  "cpu_type_name_in [] cpu_type = ''unknown''"
| "cpu_type_name_in ((cputype, cpu_name) # names) cpu_type =
     (if cpu_type = cputype then cpu_name else cpu_type_name_in names cpu_type)"

definition cpu_type_name :: "macho_headers \<Rightarrow> u32 \<Rightarrow> string" where
  "cpu_type_name M cpu_type = cpu_type_name_in (cpu_type_names M) cpu_type"

text \<open>
  \<open>load_bytes\<close>; \<open>nul\<close> tells which allocator calls fail. It does not check the result of
  \<open>calloc\<close>, and each caller reads the buffer: a failure is undefined.
\<close>

definition load_bytes :: "(nat \<Rightarrow> bool) \<Rightarrow> stream \<Rightarrow> u32 \<Rightarrow> nat \<Rightarrow> (u8 list \<times> stream) option" where
  "load_bytes nul f offset n =
     (if nul (s_callocs f) then None
      else let f = f\<lparr>s_callocs := Suc (s_callocs f), s_live := Suc (s_live f)\<rparr>;
               (bs, f) = fread n (fseek_set offset f)
           in Some (bs @ replicate (n - length bs) 0, f))"

text \<open>
  The loops count with an \<open>int i\<close> up to an unsigned \<open>ncmds\<close>: the increment at \<open>INT_MAX\<close>
  is undefined. The third argument from the end of each loop is \<open>actual_offset\<close>, which
  wraps when \<open>cmdsize\<close> is added.
\<close>

fun dump_segment_loop :: "macho_headers \<Rightarrow> (nat \<Rightarrow> bool) \<Rightarrow> bool \<Rightarrow> stream \<Rightarrow> u32 \<Rightarrow> nat \<Rightarrow> nat \<Rightarrow>
    stream option" where
  "dump_segment_loop M nul is_swap f actual_offset i 0 = Some f"
| "dump_segment_loop M nul is_swap f actual_offset i (Suc left) = do {
     (cmd, f) \<leftarrow> load_bytes nul f actual_offset (sizeof_load_command M);
     let cmd = (if is_swap then swap_load_command M cmd else cmd);
     f \<leftarrow> (if lc_cmd M cmd = LC_SEGMENT_64 M then do {
            (segment, f) \<leftarrow> load_bytes nul f actual_offset (sizeof_segment_command_64 M);
            let segment = (if is_swap then swap_segment_command_64 M segment else segment);
            Some (free_buffer (dlog (Segname (seg64_segname M segment)) f))
          }
          else if lc_cmd M cmd = LC_SEGMENT M then do {
            (segment, f) \<leftarrow> load_bytes nul f actual_offset (sizeof_segment_command M);
            let segment = (if is_swap then swap_segment_command M segment else segment);
            Some (free_buffer (dlog (Segname (seg_segname M segment)) f))
          }
          else if lc_cmd M cmd = LC_MAIN M then do {
            (segment, f) \<leftarrow> load_bytes nul f actual_offset (sizeof_entry_point_command M);
            Some (dlog (Entry_point (ep_entryoff M segment)) f)
          }
          else Some f);
     if i = INT_MAX then None
     else dump_segment_loop M nul is_swap (free_buffer f) (actual_offset + lc_cmdsize M cmd) (Suc i) left
   }"

definition dump_segment_commands :: "macho_headers \<Rightarrow> (nat \<Rightarrow> bool) \<Rightarrow> stream \<Rightarrow> u32 \<Rightarrow> bool \<Rightarrow> u32 \<Rightarrow>
    stream option" where
  "dump_segment_commands M nul f offset is_swap ncmds =
     dump_segment_loop M nul is_swap f offset 0 (unat ncmds)"

definition dump_mach_header :: "macho_headers \<Rightarrow> (nat \<Rightarrow> bool) \<Rightarrow> stream \<Rightarrow> u32 \<Rightarrow> bool \<Rightarrow> bool \<Rightarrow>
    stream option" where
  "dump_mach_header M nul f offset is_64 is_swap =
     (if is_64 then do {
        (header, f) \<leftarrow> load_bytes nul f offset (sizeof_mach_header_64 M);
        let header = (if is_swap then swap_mach_header_64 M header else header);
        let ncmds = mh64_ncmds M header;
        load_commands_offset \<leftarrow> int_add offset (sizeof_mach_header_64 M);
        let f = free_buffer (dlog (Commands (cpu_type_name M (mh64_cputype M header)) ncmds) f);
        dump_segment_commands M nul f load_commands_offset is_swap ncmds
      }
      else do {
        (header, f) \<leftarrow> load_bytes nul f offset (sizeof_mach_header M);
        let header = (if is_swap then swap_mach_header M header else header);
        let ncmds = mh_ncmds M header;
        load_commands_offset \<leftarrow> int_add offset (sizeof_mach_header M);
        let f = free_buffer (dlog (Commands (cpu_type_name M (mh_cputype M header)) ncmds) f);
        dump_segment_commands M nul f load_commands_offset is_swap ncmds
      })"

text \<open>\<open>u i\<close> is the uninitialised \<open>magic\<close> of the \<open>i\<close>-th architecture.\<close>

fun dump_fat_loop :: "macho_headers \<Rightarrow> (nat \<Rightarrow> bool) \<Rightarrow> (nat \<Rightarrow> u32) \<Rightarrow> bool \<Rightarrow> stream \<Rightarrow> u32 \<Rightarrow> nat \<Rightarrow> nat \<Rightarrow>
    stream option" where
  "dump_fat_loop M nul u is_swap f arch_offset i 0 = Some f"
| "dump_fat_loop M nul u is_swap f arch_offset i (Suc left) = do {
     (arch, f) \<leftarrow> load_bytes nul f arch_offset (sizeof_fat_arch M);
     let arch = (if is_swap then swap_fat_arch M arch else arch);
     let mach_header_offset = fat_offset M arch;
     let f = free_buffer f;
     arch_offset \<leftarrow> int_add arch_offset (sizeof_fat_arch M);
     let (magic, f) = read_magic (u i) f mach_header_offset;
     f \<leftarrow> dump_mach_header M nul f mach_header_offset (is_magic_64 M magic) (should_swap_bytes M magic);
     if i = INT_MAX then None else dump_fat_loop M nul u is_swap f arch_offset (Suc i) left
   }"

definition dump_fat_header :: "macho_headers \<Rightarrow> (nat \<Rightarrow> bool) \<Rightarrow> (nat \<Rightarrow> u32) \<Rightarrow> stream \<Rightarrow> bool \<Rightarrow>
    stream option" where
  "dump_fat_header M nul u f is_swap = do {
     (header, f) \<leftarrow> load_bytes nul f 0 (sizeof_fat_header M);
     let header = (if is_swap then swap_fat_header M header else header);
     f \<leftarrow> dump_fat_loop M nul u is_swap f (of_nat (sizeof_fat_header M)) 0 (unat (fat_nfat_arch M header));
     Some (free_buffer f)
   }"

definition dump_segments :: "macho_headers \<Rightarrow> (nat \<Rightarrow> bool) \<Rightarrow> u32 \<Rightarrow> (nat \<Rightarrow> u32) \<Rightarrow> stream \<Rightarrow>
    stream option" where
  "dump_segments M nul u0 u f =
     (let (magic, f) = read_magic u0 f 0;
          is_64 = is_magic_64 M magic;
          is_swap = should_swap_bytes M magic
      in if is_fat M magic then dump_fat_header M nul u f is_swap
         else dump_mach_header M nul f 0 is_64 is_swap)"

text \<open>
  \<open>read_segment_commands\<close>: the result, the value of \<open>*entry_point\<close>, and the stream. The
  entry point command is taken as it stands in the file, swapped or not, and its buffer and
  the one of the load command are not freed.
\<close>

fun read_segment_loop :: "macho_headers \<Rightarrow> (nat \<Rightarrow> bool) \<Rightarrow> bool \<Rightarrow> u8 list \<Rightarrow> stream \<Rightarrow> u32 \<Rightarrow> nat \<Rightarrow> nat \<Rightarrow>
    (int \<times> u8 list \<times> stream) option" where
  "read_segment_loop M nul is_swap entry_point f actual_offset i 0 = Some (1, entry_point, f)"
| "read_segment_loop M nul is_swap entry_point f actual_offset i (Suc left) = do {
     (cmd, f) \<leftarrow> load_bytes nul f actual_offset (sizeof_load_command M);
     let cmd = (if is_swap then swap_load_command M cmd else cmd);
     let continue = (\<lambda>f. if i = INT_MAX then None
       else read_segment_loop M nul is_swap entry_point (free_buffer f)
              (actual_offset + lc_cmdsize M cmd) (Suc i) left);
     if lc_cmd M cmd = LC_SEGMENT_64 M then do {
       (segment, f) \<leftarrow> load_bytes nul f actual_offset (sizeof_segment_command_64 M);
       let segment = (if is_swap then swap_segment_command_64 M segment else segment);
       continue (free_buffer (dlog (Segname (seg64_segname M segment)) f))
     }
     else if lc_cmd M cmd = LC_SEGMENT M then do {
       (segment, f) \<leftarrow> load_bytes nul f actual_offset (sizeof_segment_command M);
       let segment = (if is_swap then swap_segment_command M segment else segment);
       continue (free_buffer (dlog (Segname (seg_segname M segment)) f))
     }
     else if lc_cmd M cmd = LC_MAIN M then do {
       (segment, f) \<leftarrow> load_bytes nul f actual_offset (sizeof_entry_point_command M);
       Some (0, segment, dlog (Entry_point (ep_entryoff M segment)) f)
     }
     else continue f
   }"

definition read_segment_commands :: "macho_headers \<Rightarrow> (nat \<Rightarrow> bool) \<Rightarrow> stream \<Rightarrow> u32 \<Rightarrow> bool \<Rightarrow> u32 \<Rightarrow>
    u8 list \<Rightarrow> (int \<times> u8 list \<times> stream) option" where
  "read_segment_commands M nul f offset is_swap ncmds entry_point =
     read_segment_loop M nul is_swap entry_point f offset 0 (unat ncmds)"

definition read_mach_header :: "macho_headers \<Rightarrow> (nat \<Rightarrow> bool) \<Rightarrow> stream \<Rightarrow> u32 \<Rightarrow> bool \<Rightarrow> bool \<Rightarrow>
    u8 list \<Rightarrow> (int \<times> u8 list \<times> stream) option" where
  "read_mach_header M nul f offset is_64 is_swap entry_point =
     (if is_64 then do {
        (header, f) \<leftarrow> load_bytes nul f offset (sizeof_mach_header_64 M);
        let header = (if is_swap then swap_mach_header_64 M header else header);
        let ncmds = mh64_ncmds M header;
        load_commands_offset \<leftarrow> int_add offset (sizeof_mach_header_64 M);
        let f = free_buffer (dlog (Commands (cpu_type_name M (mh64_cputype M header)) ncmds) f);
        read_segment_commands M nul f load_commands_offset is_swap ncmds entry_point
      }
      else do {
        (header, f) \<leftarrow> load_bytes nul f offset (sizeof_mach_header M);
        let header = (if is_swap then swap_mach_header M header else header);
        let ncmds = mh_ncmds M header;
        load_commands_offset \<leftarrow> int_add offset (sizeof_mach_header M);
        let f = free_buffer (dlog (Commands (cpu_type_name M (mh_cputype M header)) ncmds) f);
        read_segment_commands M nul f load_commands_offset is_swap ncmds entry_point
      })"

definition read_entry_point_cmd :: "macho_headers \<Rightarrow> (nat \<Rightarrow> bool) \<Rightarrow> u32 \<Rightarrow> stream \<Rightarrow> u8 list \<Rightarrow>
    (int \<times> u8 list \<times> stream) option" where
  "read_entry_point_cmd M nul u f entry_point =
     (let (magic, f) = read_magic u f 0;
          is_64 = is_magic_64 M magic;
          is_swap = should_swap_bytes M magic
      in if is_fat M magic then Some (1, entry_point, f)
         else read_mach_header M nul f 0 is_64 is_swap entry_point)"

end
