(* ===== verification/MachoSpec.thy ===== *)
theory MachoSpec
  imports MachoParser
begin

text \<open>
  What the reader of \<open>MachoParser\<close> finds in a file: the chain of load commands that the
  offsets and sizes in the file describe, and the first command of type \<open>LC_MAIN\<close> on it.
\<close>

section \<open>The chain of load commands\<close>

definition file_buf :: "u8 list \<Rightarrow> nat \<Rightarrow> nat \<Rightarrow> u8 list" where
  "file_buf bs off n = take n (drop off bs) @ replicate (n - length (drop off bs)) 0"

definition command_at :: "macho_headers \<Rightarrow> bool \<Rightarrow> u8 list \<Rightarrow> u32 \<Rightarrow> u8 list" where
  "command_at M is_swap bs off =
     (let c = file_buf bs (nat (sint off)) (sizeof_load_command M)
      in if is_swap then swap_load_command M c else c)"

text \<open>Offset and contents of the next \<open>n\<close> commands.\<close>

fun commands :: "macho_headers \<Rightarrow> bool \<Rightarrow> u8 list \<Rightarrow> u32 \<Rightarrow> nat \<Rightarrow> (u32 \<times> u8 list) list" where
  "commands M is_swap bs off 0 = []"
| "commands M is_swap bs off (Suc n) =
     (off, command_at M is_swap bs off)
       # commands M is_swap bs (off + lc_cmdsize M (command_at M is_swap bs off)) n"

definition is_main :: "macho_headers \<Rightarrow> u32 \<times> u8 list \<Rightarrow> bool" where
  "is_main M c \<longleftrightarrow> lc_cmd M (snd c) = LC_MAIN M"

definition header_size :: "macho_headers \<Rightarrow> u32 \<Rightarrow> nat" where
  "header_size M magic =
     (if is_magic_64 M magic then sizeof_mach_header_64 M else sizeof_mach_header M)"

definition header_ncmds :: "macho_headers \<Rightarrow> u32 \<Rightarrow> u8 list \<Rightarrow> u32" where
  "header_ncmds M magic header =
     (if is_magic_64 M magic
      then mh64_ncmds M (if should_swap_bytes M magic then swap_mach_header_64 M header else header)
      else mh_ncmds M (if should_swap_bytes M magic then swap_mach_header M header else header))"

text \<open>The commands that the header at the start of a file announces.\<close>

definition file_commands :: "macho_headers \<Rightarrow> u32 \<Rightarrow> u8 list \<Rightarrow> (u32 \<times> u8 list) list" where
  "file_commands M magic bs =
     commands M (should_swap_bytes M magic) bs (of_nat (header_size M magic))
       (unat (header_ncmds M magic (file_buf bs 0 (header_size M magic))))"

text \<open>Apple's constants differ, and the headers are small, and a load command takes space.\<close>

definition macho_headers_ok :: "macho_headers \<Rightarrow> bool" where
  "macho_headers_ok M \<longleftrightarrow> LC_MAIN M \<noteq> LC_SEGMENT M \<and> LC_MAIN M \<noteq> LC_SEGMENT_64 M
     \<and> sizeof_mach_header M \<le> INT_MAX \<and> sizeof_mach_header_64 M \<le> INT_MAX
     \<and> 0 < sizeof_load_command M"

lemma length_commands [simp]: "length (commands M sw bs off n) = n"
  by (induction n arbitrary: off) (simp_all add: Let_def)

section \<open>Reading a buffer\<close>

lemma load_bytes_defined:
  assumes "\<not> nul (s_callocs f)"
  obtains b f' where "load_bytes nul f off n = Some (b, f')" "s_bytes f' = s_bytes f"
    "s_live f' = Suc (s_live f)" "0 \<le> sint off \<longrightarrow> b = file_buf (s_bytes f) (nat (sint off)) n"
proof -
  obtain b f' where l: "load_bytes nul f off n = Some (b, f')"
    using assms by (simp add: load_bytes_def fread_def Let_def)
  then have "s_bytes f' = s_bytes f" "s_live f' = Suc (s_live f)"
    "0 \<le> sint off \<longrightarrow> b = file_buf (s_bytes f) (nat (sint off)) n"
    using assms by (auto simp: load_bytes_def fread_def Let_def fseek_set_def file_buf_def
        min_def split: if_splits)
  with l that show thesis by blast
qed

lemma stream_ops [simp]:
  "s_bytes (free_buffer f) = s_bytes f" "s_live (free_buffer f) = s_live f - 1"
  "s_bytes (dlog msg f) = s_bytes f" "s_live (dlog msg f) = s_live f"
  by (simp_all add: free_buffer_def dlog_def)

lemma read_magic_stream:
  "read_magic u f off = (x, f') \<Longrightarrow> s_bytes f' = s_bytes f \<and> s_live f' = s_live f"
  by (auto simp: read_magic_def fread_def fseek_set_def Let_def split: if_splits)

lemma read_magic_start:
  "fst (read_magic u f 0) = overlay bytes32 word32 u (take 4 (s_bytes f))"
  by (simp add: read_magic_def fread_def fseek_set_def Let_def)

section \<open>One iteration\<close>

lemma read_segment_loop_step:
  assumes nul: "\<And>k. \<not> nul k"
  obtains cmd f' where "s_bytes f' = s_bytes f"
    "0 \<le> sint off \<longrightarrow> cmd = command_at M sw (s_bytes f) off"
    "lc_cmd M cmd = LC_MAIN M" "lc_cmd M cmd \<noteq> LC_SEGMENT M" "lc_cmd M cmd \<noteq> LC_SEGMENT_64 M"
    "s_live f' = s_live f + 2"
    "\<And>e i left. \<exists>b. read_segment_loop M nul sw e f off i (Suc left) = Some (0, b, f')
       \<and> (0 \<le> sint off \<longrightarrow> b = file_buf (s_bytes f) (nat (sint off)) (sizeof_entry_point_command M))"
  | cmd f' where "s_bytes f' = s_bytes f"
    "0 \<le> sint off \<longrightarrow> cmd = command_at M sw (s_bytes f) off"
    "lc_cmd M cmd \<noteq> LC_MAIN M \<or> lc_cmd M cmd = LC_SEGMENT M \<or> lc_cmd M cmd = LC_SEGMENT_64 M"
    "s_live f' = s_live f"
    "\<And>e i left. read_segment_loop M nul sw e f off i (Suc left) =
       (if i = INT_MAX then None else read_segment_loop M nul sw e f' (off + lc_cmdsize M cmd) (Suc i) left)"
    "\<And>i left. dump_segment_loop M nul sw f off i (Suc left) =
       (if i = INT_MAX then None else dump_segment_loop M nul sw f' (off + lc_cmdsize M cmd) (Suc i) left)"
proof -
  obtain b f1 where l: "load_bytes nul f off (sizeof_load_command M) = Some (b, f1)"
    and f1: "s_bytes f1 = s_bytes f" "s_live f1 = Suc (s_live f)"
    and b: "0 \<le> sint off \<longrightarrow> b = file_buf (s_bytes f) (nat (sint off)) (sizeof_load_command M)"
    using load_bytes_defined [of nul f off "sizeof_load_command M"] nul by blast
  define cmd where "cmd = (if sw then swap_load_command M b else b)"
  have c: "0 \<le> sint off \<longrightarrow> cmd = command_at M sw (s_bytes f) off"
    using b by (simp add: cmd_def command_at_def)
  consider "lc_cmd M cmd = LC_SEGMENT_64 M" | "lc_cmd M cmd \<noteq> LC_SEGMENT_64 M" "lc_cmd M cmd = LC_SEGMENT M"
    | "lc_cmd M cmd \<noteq> LC_SEGMENT_64 M" "lc_cmd M cmd \<noteq> LC_SEGMENT M" "lc_cmd M cmd = LC_MAIN M"
    | "lc_cmd M cmd \<noteq> LC_SEGMENT_64 M" "lc_cmd M cmd \<noteq> LC_SEGMENT M" "lc_cmd M cmd \<noteq> LC_MAIN M"
    by blast
  then show thesis
  proof cases
    case 1
    obtain b2 f2 where l2: "load_bytes nul f1 off (sizeof_segment_command_64 M) = Some (b2, f2)"
      and f2: "s_bytes f2 = s_bytes f1" "s_live f2 = Suc (s_live f1)"
      using load_bytes_defined [of nul f1 off "sizeof_segment_command_64 M"] nul by blast
    show thesis
      by (rule that(2) [where cmd = cmd and f' = "free_buffer (free_buffer (dlog (Segname (seg64_segname M
            (if sw then swap_segment_command_64 M b2 else b2))) f2))"])
        (use 1 l l2 f1 f2 c in \<open>simp_all add: Let_def cmd_def [symmetric]\<close>)
  next
    case 2
    obtain b2 f2 where l2: "load_bytes nul f1 off (sizeof_segment_command M) = Some (b2, f2)"
      and f2: "s_bytes f2 = s_bytes f1" "s_live f2 = Suc (s_live f1)"
      using load_bytes_defined [of nul f1 off "sizeof_segment_command M"] nul by blast
    show thesis
      by (rule that(2) [where cmd = cmd and f' = "free_buffer (free_buffer (dlog (Segname (seg_segname M
            (if sw then swap_segment_command M b2 else b2))) f2))"])
        (use 2 l l2 f1 f2 c in \<open>simp_all add: Let_def cmd_def [symmetric]\<close>)
  next
    case 3
    obtain b2 f2 where l2: "load_bytes nul f1 off (sizeof_entry_point_command M) = Some (b2, f2)"
      and f2: "s_bytes f2 = s_bytes f1" "s_live f2 = Suc (s_live f1)"
      and b2: "0 \<le> sint off \<longrightarrow> b2 = file_buf (s_bytes f1) (nat (sint off)) (sizeof_entry_point_command M)"
      using load_bytes_defined [of nul f1 off "sizeof_entry_point_command M"] nul by blast
    show thesis
      by (rule that(1) [where cmd = cmd and f' = "dlog (Entry_point (ep_entryoff M b2)) f2"])
        (use 3 l l2 f1 f2 b2 c in \<open>simp_all add: Let_def cmd_def [symmetric]\<close>)
  next
    case 4
    show thesis
      by (rule that(2) [where cmd = cmd and f' = "free_buffer f1"])
        (use 4 l f1 c in \<open>simp_all add: Let_def cmd_def [symmetric]\<close>)
  qed
qed

section \<open>The loop\<close>

declare read_segment_loop.simps(2) [simp del] dump_segment_loop.simps(2) [simp del]

lemma read_segment_loop_spec:
  assumes nul: "\<And>k. \<not> nul k" and M: "macho_headers_ok M"
  shows "i \<le> INT_MAX \<Longrightarrow> \<forall>c \<in> set (commands M sw (s_bytes f) off left). 0 \<le> sint (fst c) \<Longrightarrow>
    (case find (is_main M) (take (Suc INT_MAX - i) (commands M sw (s_bytes f) off left)) of
       Some c \<Rightarrow> \<exists>f'. read_segment_loop M nul sw e f off i left
           = Some (0, file_buf (s_bytes f) (nat (sint (fst c))) (sizeof_entry_point_command M), f')
     | None \<Rightarrow> if i + left \<le> INT_MAX then \<exists>f'. read_segment_loop M nul sw e f off i left = Some (1, e, f')
              else read_segment_loop M nul sw e f off i left = None)"
proof (induction left arbitrary: f off i)
  case 0
  then show ?case by simp
next
  case (Suc left)
  let ?c = "command_at M sw (s_bytes f) off"
  have off: "0 \<le> sint off" and rest: "\<forall>c \<in> set (commands M sw (s_bytes f) (off + lc_cmdsize M ?c) left). 0 \<le> sint (fst c)"
    using Suc.prems(2) by simp_all
  obtain d where d: "Suc INT_MAX - i = Suc d" "Suc INT_MAX - Suc i = d"
    using Suc.prems(1) by (cases "Suc INT_MAX - i") simp_all
  show ?case
  proof (cases rule: read_segment_loop_step [where f = f and off = off and M = M and sw = sw and nul = nul, OF nul])
    case (1 cmd f')
    then show ?thesis
      using off 1(7) [of e i left] by (auto simp: d is_main_def)
  next
    case (2 cmd f')
    have cmd: "cmd = ?c"
      using 2(2) off by simp
    have nm: "\<not> is_main M (off, ?c)"
      using 2(3) M unfolding cmd by (auto simp: is_main_def macho_headers_ok_def)
    show ?thesis
    proof (cases "i = INT_MAX")
      case True
      then show ?thesis
        using 2(5) [of e i left] nm d by (simp add: is_main_def)
    next
      case False
      then have i: "Suc i \<le> INT_MAX"
        using Suc.prems(1) by simp
      have step: "read_segment_loop M nul sw e f off i (Suc left) =
          read_segment_loop M nul sw e f' (off + lc_cmdsize M ?c) (Suc i) left"
        using 2(5) [of e i left] False by (simp add: cmd)
      have tk: "find (is_main M) (take (Suc INT_MAX - i) (commands M sw (s_bytes f) off (Suc left)))
          = find (is_main M) (take d (commands M sw (s_bytes f) (off + lc_cmdsize M ?c) left))"
        using nm by (simp add: d)
      from Suc.IH [OF i, of f' "off + lc_cmdsize M ?c", unfolded 2(1) d] rest
      show ?thesis
        unfolding step tk
        by (cases "find (is_main M) (take d (commands M sw (s_bytes f) (off + lc_cmdsize M ?c) left))") simp_all
    qed
  qed
qed

text \<open>Whatever the offsets in the file, the reader comes back, having freed what it
  allocated unless it found an entry point.\<close>

lemma read_segment_loop_total:
  assumes nul: "\<And>k. \<not> nul k"
  shows "i + left \<le> INT_MAX \<Longrightarrow> \<exists>r b f'. read_segment_loop M nul sw e f off i left = Some (r, b, f')
    \<and> s_bytes f' = s_bytes f \<and> (r = 1 \<and> b = e \<and> s_live f' = s_live f \<or> r = 0 \<and> s_live f' = s_live f + 2)"
proof (induction left arbitrary: f off i)
  case 0
  then show ?case by simp
next
  case (Suc left)
  show ?case
  proof (cases rule: read_segment_loop_step [where f = f and off = off and M = M and sw = sw and nul = nul, OF nul])
    case (1 cmd f')
    obtain b where "read_segment_loop M nul sw e f off i (Suc left) = Some (0, b, f')"
      using 1(7) [of e i left] by blast
    with 1(1,6) show ?thesis by simp
  next
    case (2 cmd f')
    have "Suc i + left \<le> INT_MAX" "i \<noteq> INT_MAX"
      using Suc.prems by simp_all
    with Suc.IH [of "Suc i" f' "off + lc_cmdsize M cmd"] 2 show ?thesis by simp
  qed
qed

text \<open>The two copies of the loop agree as long as no command of type \<open>LC_MAIN\<close> is met.\<close>

lemma dump_segment_loop_eq:
  assumes nul: "\<And>k. \<not> nul k"
  shows "read_segment_loop M nul sw e f off i left = Some (1, b, f')
    \<Longrightarrow> dump_segment_loop M nul sw f off i left = Some f'"
proof (induction left arbitrary: f off i)
  case 0
  then show ?case by simp
next
  case (Suc left)
  show ?case
  proof (cases rule: read_segment_loop_step [where f = f and off = off and M = M and sw = sw and nul = nul, OF nul])
    case (1 cmd f1)
    then show ?thesis
      using 1(7) [of e i left] Suc.prems by auto
  next
    case (2 cmd f1)
    then show ?thesis
      using Suc by (auto split: if_splits)
  qed
qed

section \<open>Files written one command after the other\<close>

lemma file_buf_drop:
  assumes "drop off bs = xs @ ys" "n \<le> length xs"
  shows "file_buf bs off n = take n xs"
  using assms by (simp add: file_buf_def)

lemma nat_sint_of_nat: "n \<le> INT_MAX \<Longrightarrow> sint (of_nat n :: u32) = int n"
  by (simp add: INT_MAX_def signed_of_nat signed_take_bit_int_eq_self)

text \<open>A command written with its own length in its size field.\<close>

definition command_ok :: "macho_headers \<Rightarrow> bool \<Rightarrow> u8 list \<Rightarrow> bool" where
  "command_ok M sw c \<longleftrightarrow> sizeof_load_command M \<le> length c
     \<and> (let h = take (sizeof_load_command M) c
        in unat (lc_cmdsize M (if sw then swap_load_command M h else h)) = length c)"

definition command_kind :: "macho_headers \<Rightarrow> bool \<Rightarrow> u8 list \<Rightarrow> u32" where
  "command_kind M sw c =
     (let h = take (sizeof_load_command M) c in lc_cmd M (if sw then swap_load_command M h else h))"

lemma commands_laid_out:
  "drop o1 bs = concat cs @ ys \<Longrightarrow> \<forall>c \<in> set cs. command_ok M sw c \<Longrightarrow> o1 + length (concat cs) \<le> INT_MAX \<Longrightarrow>
     (\<forall>x \<in> set (commands M sw bs (of_nat o1) (length cs)). 0 \<le> sint (fst x))
   \<and> (case find (is_main M) (commands M sw bs (of_nat o1) (length cs)) of
        None \<Rightarrow> find (\<lambda>c. command_kind M sw c = LC_MAIN M) cs = None
      | Some x \<Rightarrow> \<exists>c zs. find (\<lambda>c. command_kind M sw c = LC_MAIN M) cs = Some c
          \<and> drop (nat (sint (fst x))) bs = c @ zs)"
proof (induction cs arbitrary: o1)
  case Nil
  then show ?case by simp
next
  case (Cons c cs)
  have ok: "command_ok M sw c"
    using Cons.prems(2) by simp
  have at: "command_at M sw bs (of_nat o1) = (let h = take (sizeof_load_command M) c in if sw then swap_load_command M h else h)"
    using Cons.prems(1,3) ok file_buf_drop [of o1 bs c "concat cs @ ys" "sizeof_load_command M"]
    by (simp add: command_at_def nat_sint_of_nat command_ok_def)
  have "unat (lc_cmdsize M (command_at M sw bs (of_nat o1))) = length c"
    using ok by (simp add: at command_ok_def Let_def)
  then have size: "lc_cmdsize M (command_at M sw bs (of_nat o1)) = of_nat (length c)"
    by (metis of_nat_unat ucast_id)
  have "drop (o1 + length c) bs = concat cs @ ys"
    using Cons.prems(1) by (metis append.assoc append_eq_conv_conj concat.simps(2) drop_drop add.commute)
  from Cons.IH [OF this] Cons.prems(2,3)
  have IH: "(\<forall>x \<in> set (commands M sw bs (of_nat (o1 + length c)) (length cs)). 0 \<le> sint (fst x))
   \<and> (case find (is_main M) (commands M sw bs (of_nat (o1 + length c)) (length cs)) of
        None \<Rightarrow> find (\<lambda>c. command_kind M sw c = LC_MAIN M) cs = None
      | Some x \<Rightarrow> \<exists>c zs. find (\<lambda>c. command_kind M sw c = LC_MAIN M) cs = Some c
          \<and> drop (nat (sint (fst x))) bs = c @ zs)"
    by simp
  have cmds: "commands M sw bs (of_nat o1) (length (c # cs)) =
      (of_nat o1, command_at M sw bs (of_nat o1)) # commands M sw bs (of_nat (o1 + length c)) (length cs)"
    by (simp add: size)
  have kind: "is_main M (of_nat o1, command_at M sw bs (of_nat o1)) \<longleftrightarrow> command_kind M sw c = LC_MAIN M"
    by (simp add: is_main_def at command_kind_def Let_def)
  show ?case
  proof (cases "command_kind M sw c = LC_MAIN M")
    case True
    then show ?thesis
      using IH Cons.prems(1,3) kind unfolding cmds by (simp add: nat_sint_of_nat)
  next
    case False
    then show ?thesis
      using IH Cons.prems(3) kind unfolding cmds by (simp add: nat_sint_of_nat cong: option.case_cong)
  qed
qed

section \<open>The header\<close>

lemma read_mach_header_start:
  assumes nul: "\<And>k. \<not> nul k" and M: "macho_headers_ok M" and sw: "sw = should_swap_bytes M magic"
  obtains f' where "s_bytes f' = s_bytes f" "s_live f' = s_live f"
    "\<And>e. read_mach_header M nul f 0 (is_magic_64 M magic) sw e =
       read_segment_loop M nul sw e f' (of_nat (header_size M magic)) 0
         (unat (header_ncmds M magic (file_buf (s_bytes f) 0 (header_size M magic))))"
proof -
  obtain b f1 where l: "load_bytes nul f 0 (header_size M magic) = Some (b, f1)" "s_bytes f1 = s_bytes f"
    "s_live f1 = Suc (s_live f)" "b = file_buf (s_bytes f) 0 (header_size M magic)"
    using load_bytes_defined [of nul f 0 "header_size M magic"] nul by auto
  have add: "int_add 0 (header_size M magic) = Some (of_nat (header_size M magic))"
    using M by (simp add: int_add_def header_size_def macho_headers_ok_def)
  show thesis
  proof (cases "is_magic_64 M magic")
    case True
    show thesis
      by (rule that [of "free_buffer (dlog (Commands (cpu_type_name M (mh64_cputype M
            (if sw then swap_mach_header_64 M b else b))) (mh64_ncmds M
            (if sw then swap_mach_header_64 M b else b))) f1)"])
        (use True l add sw in \<open>simp_all add: read_mach_header_def read_segment_commands_def Let_def
            header_size_def header_ncmds_def del: read_segment_loop.simps\<close>)
  next
    case False
    show thesis
      by (rule that [of "free_buffer (dlog (Commands (cpu_type_name M (mh_cputype M
            (if sw then swap_mach_header M b else b))) (mh_ncmds M
            (if sw then swap_mach_header M b else b))) f1)"])
        (use False l add sw in \<open>simp_all add: read_mach_header_def read_segment_commands_def Let_def
            header_size_def header_ncmds_def del: read_segment_loop.simps\<close>)
  qed
qed

lemma read_entry_point_cmd_start:
  assumes nul: "\<And>k. \<not> nul k" and M: "macho_headers_ok M"
    and magic: "magic = overlay bytes32 word32 u (take 4 (s_bytes f))"
    and nofat: "\<not> is_fat M magic"
  obtains f' where "s_bytes f' = s_bytes f" "s_live f' = s_live f"
    "\<And>e. read_entry_point_cmd M nul u f e =
       read_segment_loop M nul (should_swap_bytes M magic) e f' (of_nat (header_size M magic)) 0
         (unat (header_ncmds M magic (file_buf (s_bytes f) 0 (header_size M magic))))"
proof -
  obtain f1 where f1: "read_magic u f 0 = (magic, f1)"
    using read_magic_start [of u f] magic by (cases "read_magic u f 0") simp
  note s = read_magic_stream [OF f1]
  obtain f' where f': "s_bytes f' = s_bytes f1" "s_live f' = s_live f1"
    "\<And>e. read_mach_header M nul f1 0 (is_magic_64 M magic) (should_swap_bytes M magic) e =
       read_segment_loop M nul (should_swap_bytes M magic) e f' (of_nat (header_size M magic)) 0
         (unat (header_ncmds M magic (file_buf (s_bytes f1) 0 (header_size M magic))))"
    using read_mach_header_start [where M = M and nul = nul and f = f1 and magic = magic, OF nul M refl]
    by blast
  show thesis
    by (rule that [of f']) (use f' s f1 nofat in \<open>simp_all add: read_entry_point_cmd_def Let_def
        del: read_segment_loop.simps\<close>)
qed

text \<open>The reader on any file.\<close>

lemma read_entry_point_cmd_runs:
  assumes nul: "\<forall>k. \<not> nul k" and M: "macho_headers_ok M"
    and magic: "magic = overlay bytes32 word32 u (take 4 (s_bytes f))"
    and count: "unat (header_ncmds M magic (file_buf (s_bytes f) 0 (header_size M magic))) \<le> INT_MAX"
  shows "\<exists>r b f'. read_entry_point_cmd M nul u f e = Some (r, b, f') \<and> s_bytes f' = s_bytes f
    \<and> (r = 1 \<and> b = e \<and> s_live f' = s_live f \<or> \<not> is_fat M magic \<and> r = 0 \<and> s_live f' = s_live f + 2)"
proof (cases "is_fat M magic")
  case True
  obtain f1 where f1: "read_magic u f 0 = (magic, f1)"
    using read_magic_start [of u f] magic by (cases "read_magic u f 0") simp
  with True read_magic_stream [OF f1] show ?thesis
    by (simp add: read_entry_point_cmd_def)
next
  case False
  have nul: "\<not> nul k" for k
    using nul by blast
  obtain f' where f': "s_bytes f' = s_bytes f" "s_live f' = s_live f"
    "\<And>e. read_entry_point_cmd M nul u f e =
       read_segment_loop M nul (should_swap_bytes M magic) e f' (of_nat (header_size M magic)) 0
         (unat (header_ncmds M magic (file_buf (s_bytes f) 0 (header_size M magic))))"
    using read_entry_point_cmd_start [where nul = nul, OF nul M magic False] by metis
  show ?thesis
    using read_segment_loop_total [where nul = nul and i = 0 and f = f' and M = M and e = e, OF nul] count False
    unfolding f' by simp
qed

end
