(* ===== verification/MachoProperties.thy ===== *)
theory MachoProperties
  imports MachoSpec
begin

text \<open>
  The properties of the Mach-O reader, with instances at small files in the layout of
  Apple's headers.
\<close>

section \<open>A file in Apple's layout\<close>

definition field32 :: "nat \<Rightarrow> u8 list \<Rightarrow> u32" where
  "field32 k bs = word32 (take 4 (drop k bs))"

fun swap_words :: "u8 list \<Rightarrow> u8 list" where
  "swap_words (a # b # c # d # bs) = d # c # b # a # swap_words bs"
| "swap_words bs = bs"

definition apple_headers :: macho_headers where
  "apple_headers = \<lparr>
     MH_MAGIC_64 = 0xfeedfacf, MH_CIGAM_64 = 0xcffaedfe, MH_CIGAM = 0xcefaedfe,
     FAT_MAGIC = 0xcafebabe, FAT_CIGAM = 0xbebafeca,
     LC_SEGMENT = 1, LC_SEGMENT_64 = 0x19, LC_MAIN = 0x80000028,
     CPU_TYPE_I386 = 7, CPU_TYPE_X86_64 = 0x1000007, CPU_TYPE_ARM = 12, CPU_TYPE_ARM64 = 0x100000c,
     sizeof_mach_header = 28, sizeof_mach_header_64 = 32, sizeof_load_command = 8,
     sizeof_segment_command = 56, sizeof_segment_command_64 = 72, sizeof_entry_point_command = 24,
     sizeof_fat_header = 8, sizeof_fat_arch = 20,
     mh_ncmds = field32 16, mh_cputype = field32 4, mh64_ncmds = field32 16, mh64_cputype = field32 4,
     lc_cmd = field32 0, lc_cmdsize = field32 4,
     seg_segname = (\<lambda>b. take 16 (drop 8 b)), seg64_segname = (\<lambda>b. take 16 (drop 8 b)),
     ep_entryoff = (\<lambda>b. word64 (take 8 (drop 8 b))),
     fat_nfat_arch = field32 4, fat_offset = field32 8,
     swap_mach_header = swap_words, swap_mach_header_64 = swap_words, swap_load_command = swap_words,
     swap_segment_command = (\<lambda>b. swap_words (take 8 b) @ take 16 (drop 8 b) @ swap_words (drop 24 b)),
     swap_segment_command_64 = (\<lambda>b. swap_words (take 8 b) @ take 16 (drop 8 b)
       @ rev (take 8 (drop 24 b)) @ rev (take 8 (drop 32 b)) @ rev (take 8 (drop 40 b))
       @ rev (take 8 (drop 48 b)) @ swap_words (drop 56 b)),
     swap_fat_header = swap_words, swap_fat_arch = swap_words\<rparr>"

lemma apple_headers_ok: "macho_headers_ok apple_headers"
  by (simp add: macho_headers_ok_def apple_headers_def INT_MAX_def)

definition open_stream :: "u8 list \<Rightarrow> stream" where
  "open_stream bs = \<lparr>s_bytes = bs, s_pos = 0, s_callocs = 0, s_live = 0, s_log = []\<rparr>"

text \<open>A header that announces \<open>n\<close> commands, a command of an unknown type, an entry point.\<close>

definition demo_header :: "u32 \<Rightarrow> u8 list" where
  "demo_header n = bytes32 0xfeedfacf @ bytes32 0x1000007 @ bytes32 3 @ bytes32 2 @ bytes32 n
     @ bytes32 36 @ bytes32 0 @ bytes32 0"

definition demo_uuid :: "u8 list" where
  "demo_uuid = bytes32 0x1b @ bytes32 12 @ bytes32 0"

definition demo_main :: "u8 list" where
  "demo_main = bytes32 0x80000028 @ bytes32 24 @ bytes64 0xf50 @ bytes64 0"

lemma length_bytes [simp]: "length (bytes32 w) = 4" "length (bytes64 v) = 8"
  by (simp_all add: bytes32_def bytes64_def)

lemma word32_bytes32_take [simp]: "word32 (take 4 (bytes32 w @ bs)) = w" "word32 (bytes32 w) = w"
  using codec32.dec_enc [of w] by simp_all

lemma apple_headers_simps [simp]:
  "MH_MAGIC_64 apple_headers = 0xfeedfacf" "MH_CIGAM_64 apple_headers = 0xcffaedfe"
  "MH_CIGAM apple_headers = 0xcefaedfe" "FAT_MAGIC apple_headers = 0xcafebabe"
  "FAT_CIGAM apple_headers = 0xbebafeca" "LC_MAIN apple_headers = 0x80000028"
  "sizeof_mach_header_64 apple_headers = 32" "sizeof_load_command apple_headers = 8"
  "sizeof_entry_point_command apple_headers = 24"
  "lc_cmd apple_headers = field32 0" "lc_cmdsize apple_headers = field32 4"
  "mh64_ncmds apple_headers = field32 16"
  by (simp_all add: apple_headers_def)

lemma demo_header_facts:
  "word32 (take 4 (demo_header n @ bs)) = 0xfeedfacf" "length (demo_header n) = 32"
  "field32 16 (demo_header n) = n"
  by (simp_all add: demo_header_def field32_def)

lemma demo_commands_facts:
  "length demo_uuid = 12" "field32 4 (take 8 demo_uuid) = 12" "field32 0 (take 8 demo_uuid) = 0x1b"
  "length demo_main = 24" "field32 4 (take 8 demo_main) = 24" "field32 0 (take 8 demo_main) = 0x80000028"
  by (simp_all add: demo_uuid_def demo_main_def field32_def)

lemma length_concat_ge: "\<forall>c \<in> set cs. Suc 0 \<le> length c \<Longrightarrow> length cs \<le> length (concat cs)"
proof (induction cs)
  case Nil
  then show ?case by simp
next
  case (Cons c cs)
  then have "length cs \<le> length (concat cs)" "Suc 0 \<le> length c" by simp_all
  then have "Suc 0 + length cs \<le> length c + length (concat cs)"
    by (intro add_le_mono)
  then show ?case by simp
qed

section \<open>Properties\<close>

text \<open>C13: for a file that is not a fat one, with a stream and buffers that can be read,
  \<open>read_entry_point_cmd\<close> follows the chain of load commands that the header announces
  and returns 0 with the bytes of the first \<open>LC_MAIN\<close> command among the first \<open>2 ^ 31\<close>,
  as they stand in the file even when the file has the other byte order. Without one it
  returns 1 and leaves the entry point alone if at most \<open>INT_MAX\<close> commands are announced;
  otherwise its counter overflows.\<close>

theorem read_entry_point_cmd_finds_first:
  assumes nul: "\<forall>k. \<not> nul k" and M: "macho_headers_ok M"
    and magic: "magic = overlay bytes32 word32 u (take 4 (s_bytes f))" and nofat: "\<not> is_fat M magic"
    and offsets: "\<forall>c \<in> set (file_commands M magic (s_bytes f)). 0 \<le> sint (fst c)"
  shows "case find (is_main M) (take (Suc INT_MAX) (file_commands M magic (s_bytes f))) of
      Some c \<Rightarrow> \<exists>f'. read_entry_point_cmd M nul u f e
        = Some (0, file_buf (s_bytes f) (nat (sint (fst c))) (sizeof_entry_point_command M), f')
    | None \<Rightarrow> if length (file_commands M magic (s_bytes f)) \<le> INT_MAX
        then \<exists>f'. read_entry_point_cmd M nul u f e = Some (1, e, f')
        else read_entry_point_cmd M nul u f e = None"
proof -
  have nul: "\<not> nul k" for k
    using nul by blast
  obtain f' where f': "s_bytes f' = s_bytes f"
    "\<And>e. read_entry_point_cmd M nul u f e =
       read_segment_loop M nul (should_swap_bytes M magic) e f' (of_nat (header_size M magic)) 0
         (unat (header_ncmds M magic (file_buf (s_bytes f) 0 (header_size M magic))))"
    using read_entry_point_cmd_start [where nul = nul, OF nul M magic nofat] by metis
  show ?thesis
    using read_segment_loop_spec [where nul = nul and i = 0 and f = f' and M = M, OF nul M _
        offsets [unfolded file_commands_def f'(1) [symmetric]], where e = e]
    unfolding f' file_commands_def length_commands by (simp cong: option.case_cong)
qed

theorem read_entry_point_cmd_finds_first_witness:
  "\<exists>f'. read_entry_point_cmd apple_headers (\<lambda>k. False) 0 (open_stream (demo_header 1 @ demo_main)) []
     = Some (0, demo_main, f')"
proof -
  let ?bs = "demo_header 1 @ demo_main"
  have magic: "overlay bytes32 word32 0 (take 4 ?bs) = 0xfeedfacf"
    using codec32.overlay_full [of "take 4 ?bs" 0] demo_header_facts(1) [of 1 demo_main]
    by (simp add: demo_header_facts)
  have buf: "file_buf ?bs 0 32 = demo_header 1" "file_buf ?bs 32 8 = take 8 demo_main"
    "file_buf ?bs 32 24 = demo_main"
    by (simp_all add: file_buf_def demo_header_facts demo_commands_facts)
  have cmds: "file_commands apple_headers 0xfeedfacf ?bs = [(32, take 8 demo_main)]"
    by (simp add: file_commands_def header_size_def header_ncmds_def is_magic_64_def should_swap_bytes_def
        buf demo_header_facts command_at_def)
  show ?thesis
    using read_entry_point_cmd_finds_first [of "\<lambda>k. False" apple_headers "0xfeedfacf" 0
        "open_stream ?bs" "[]", OF _ apple_headers_ok]
    by (simp add: open_stream_def magic is_fat_def cmds is_main_def demo_commands_facts buf del: take_append)
qed

text \<open>C36: reading undoes writing: in a file made of a header, its load commands one after
  the other and anything behind them, the reader returns the contents of the first
  \<open>LC_MAIN\<close> command, or 1 if none was written.\<close>

theorem read_entry_point_cmd_laid_out:
  assumes nul: "\<forall>k. \<not> nul k" and M: "macho_headers_ok M"
    and image: "s_bytes f = header @ concat cs @ ys" "4 \<le> length header"
    and magic: "magic = word32 (take 4 header)" and nofat: "\<not> is_fat M magic"
    and header: "length header = header_size M magic" "unat (header_ncmds M magic header) = length cs"
    and cs: "\<forall>c \<in> set cs. command_ok M (should_swap_bytes M magic) c"
    and small: "length header + length (concat cs) \<le> INT_MAX"
    and main: "\<forall>c \<in> set cs. command_kind M (should_swap_bytes M magic) c = LC_MAIN M \<longrightarrow>
      sizeof_entry_point_command M \<le> length c"
  shows "case find (\<lambda>c. command_kind M (should_swap_bytes M magic) c = LC_MAIN M) cs of
      Some c \<Rightarrow> \<exists>f'. read_entry_point_cmd M nul u f e = Some (0, take (sizeof_entry_point_command M) c, f')
    | None \<Rightarrow> \<exists>f'. read_entry_point_cmd M nul u f e = Some (1, e, f')"
proof -
  let ?sw = "should_swap_bytes M magic"
  have nul: "\<not> nul k" for k
    using nul by blast
  have "magic = overlay bytes32 word32 u (take 4 (s_bytes f))"
    using image(2) by (simp add: magic image(1) codec32.overlay_full)
  then obtain f' where f': "s_bytes f' = s_bytes f"
    "\<And>e. read_entry_point_cmd M nul u f e = read_segment_loop M nul ?sw e f' (of_nat (length header)) 0
         (unat (header_ncmds M magic (file_buf (s_bytes f) 0 (length header))))"
    using read_entry_point_cmd_start [where nul = nul, OF nul M _ nofat] unfolding header(1) by metis
  have "file_buf (s_bytes f) 0 (length header) = header"
    using file_buf_drop [of 0 "s_bytes f" header "concat cs @ ys" "length header"] by (simp add: image)
  then have read: "read_entry_point_cmd M nul u f e =
      read_segment_loop M nul ?sw e f' (of_nat (length header)) 0 (length cs)"
    unfolding f' by (simp only: header(2))
  have drop: "drop (length header) (s_bytes f') = concat cs @ ys"
    by (simp add: f' image)
  have "\<forall>c \<in> set cs. Suc 0 \<le> length c"
    using cs M by (auto simp: command_ok_def macho_headers_ok_def simp del: length_greater_0_conv)
  then have "length cs \<le> length (concat cs)"
    by (rule length_concat_ge)
  then have n: "length cs \<le> INT_MAX"
    using small by simp
  note l = commands_laid_out [OF drop cs small]
  have "take (Suc INT_MAX - 0) (commands M ?sw (s_bytes f') (of_nat (length header)) (length cs)) =
      commands M ?sw (s_bytes f') (of_nat (length header)) (length cs)"
    using n by simp
  note spec = read_segment_loop_spec [where nul = nul and f = f' and e = e, OF nul M le0 conjunct1 [OF l], unfolded this]
  show ?thesis
  proof (cases "find (is_main M) (commands M ?sw (s_bytes f') (of_nat (length header)) (length cs))")
    case None
    then show ?thesis
      using spec l n by (simp add: read)
  next
    case (Some x)
    then obtain c zs where c: "find (\<lambda>c. command_kind M ?sw c = LC_MAIN M) cs = Some c"
      "drop (nat (sint (fst x))) (s_bytes f') = c @ zs"
      using l by auto
    then have "sizeof_entry_point_command M \<le> length c"
      using main by (auto simp: find_Some_iff)
    with Some spec c file_buf_drop [OF c(2)] show ?thesis
      by (simp add: read)
  qed
qed

theorem read_entry_point_cmd_laid_out_witness:
  "\<exists>f'. read_entry_point_cmd apple_headers (\<lambda>k. False) 0
      (open_stream (demo_header 2 @ concat [demo_uuid, demo_main] @ [7])) [] = Some (0, demo_main, f')"
proof -
  have w: "word32 (take 4 (demo_header 2)) = 0xfeedfacf"
    using demo_header_facts(1) [of 2 "[]"] by simp
  show ?thesis
    using read_entry_point_cmd_laid_out [of "\<lambda>k. False" apple_headers
        "open_stream (demo_header 2 @ concat [demo_uuid, demo_main] @ [7])" "demo_header 2"
        "[demo_uuid, demo_main]" "[7]" "0xfeedfacf" 0 "[]", OF _ apple_headers_ok]
    by (simp add: open_stream_def w is_fat_def demo_header_facts header_size_def is_magic_64_def
        header_ncmds_def should_swap_bytes_def command_ok_def command_kind_def demo_commands_facts INT_MAX_def)
qed

text \<open>C37: whatever the file contains, wherever its offsets lead, as long as it announces at
  most \<open>INT_MAX\<close> commands: the reader returns 0 or 1 without undefined behaviour. On 1 the
  entry point is untouched and every buffer freed; on 0 two buffers are lost.\<close>

theorem read_entry_point_cmd_total:
  assumes nul: "\<forall>k. \<not> nul k" and M: "macho_headers_ok M"
    and magic: "magic = overlay bytes32 word32 u (take 4 (s_bytes f))"
    and count: "unat (header_ncmds M magic (file_buf (s_bytes f) 0 (header_size M magic))) \<le> INT_MAX"
  shows "\<exists>r b f'. read_entry_point_cmd M nul u f e = Some (r, b, f') \<and> s_bytes f' = s_bytes f
    \<and> (r = 1 \<and> b = e \<and> s_live f' = s_live f \<or> \<not> is_fat M magic \<and> r = 0 \<and> s_live f' = s_live f + 2)"
  by (rule read_entry_point_cmd_runs [OF assms])

theorem read_entry_point_cmd_total_witness:
  "\<exists>r b f'. read_entry_point_cmd apple_headers (\<lambda>k. False) 0 (open_stream (demo_header 5)) [] = Some (r, b, f')
     \<and> s_bytes f' = demo_header 5"
proof -
  have magic: "overlay bytes32 word32 0 (take 4 (demo_header 5)) = 0xfeedfacf"
    using codec32.overlay_full [of "take 4 (demo_header 5)" 0] demo_header_facts(1) [of 5 "[]"]
    by (simp add: demo_header_facts)
  have buf: "file_buf (demo_header 5) 0 32 = demo_header 5"
    by (simp add: file_buf_def demo_header_facts)
  show ?thesis
    using read_entry_point_cmd_total [of "\<lambda>k. False" apple_headers "0xfeedfacf" 0
        "open_stream (demo_header 5)" "[]", OF _ apple_headers_ok]
    by (auto simp: open_stream_def magic header_ncmds_def header_size_def is_magic_64_def
        should_swap_bytes_def buf demo_header_facts INT_MAX_def)
qed

text \<open>C38: \<open>dump_mach_header\<close> and \<open>read_mach_header\<close>, two copies of the same loop, agree on
  every file without an \<open>LC_MAIN\<close> command: the same messages, reads, and buffers.\<close>

theorem dump_mach_header_eq_read:
  assumes nul: "\<forall>k. \<not> nul k"
    and read: "read_mach_header M nul f offset is_64 is_swap e = Some (1, b, f')"
  shows "dump_mach_header M nul f offset is_64 is_swap = Some f'"
proof -
  have "\<not> nul k" for k
    using nul by blast
  note d = dump_segment_loop_eq [where nul = nul, OF this]
  show ?thesis
    using read by (cases is_64; cases is_swap) (auto simp: read_mach_header_def dump_mach_header_def
        read_segment_commands_def dump_segment_commands_def Let_def bind_eq_Some_conv intro: d)
qed

theorem dump_mach_header_eq_read_witness:
  "\<exists>f'. dump_mach_header apple_headers (\<lambda>k. False) (open_stream (demo_header 0)) 0 True False = Some f'
     \<and> s_log f' = [Commands ''x86_64'' 0]"
proof -
  have buf: "take 32 (demo_header 0) = demo_header 0"
    by (simp add: demo_header_facts)
  have cpu: "mh64_cputype apple_headers (demo_header 0) = 0x1000007"
    by (simp add: apple_headers_def demo_header_def field32_def)
  have "\<exists>f'. read_mach_header apple_headers (\<lambda>k. False) (open_stream (demo_header 0)) 0 True False [] =
      Some (1, [], f') \<and> s_log f' = [Commands ''x86_64'' 0]"
    by (simp add: read_mach_header_def load_bytes_def fread_def fseek_set_def open_stream_def Let_def buf cpu
        demo_header_facts int_add_def INT_MAX_def read_segment_commands_def cpu_type_name_def cpu_type_names_def
        apple_headers_def [THEN arg_cong, of CPU_TYPE_I386] apple_headers_def [THEN arg_cong, of CPU_TYPE_X86_64]
        dlog_def free_buffer_def)
  then show ?thesis
    using dump_mach_header_eq_read [of "\<lambda>k. False" apple_headers "open_stream (demo_header 0)" 0 True False "[]" "[]"]
    by auto
qed

end
