(* ===== verification/Loader.thy ===== *)
theory Loader
  imports MachoSpec EmuSyscall "HOL-Library.Signed_Division"
begin

text \<open>
  \<open>src/src/loader.c\<close>: \<open>load_raw\<close>, which copies a file into guest memory, and
  \<open>load_mach_obj\<close>, which maps a file into the guest at \<open>0x100000000\<close> and finds its entry
  point. The file calls of the system are a parameter, with what they document as a
  predicate; a mapped file appears in the memory of the process.
\<close>

section \<open>The system's file calls\<close>

text \<open>
  \<open>fo_stat\<close> takes the old value of \<open>st_size\<close>, which it keeps on failure; \<open>fo_mmap\<close> gets
  the length, whether the mapping is writable, and the descriptor; \<open>fo_fopen\<close> gives the
  contents that reading the stream will find, \<open>None\<close> for \<open>NULL\<close>.
\<close>

record 'o file_ops =
  fo_open :: "'o host \<Rightarrow> string \<Rightarrow> u32 \<times> 'o host"
  fo_stat :: "'o host \<Rightarrow> string \<Rightarrow> u64 \<Rightarrow> u32 \<times> u64 \<times> 'o host"
  fo_mmap :: "'o host \<Rightarrow> u64 \<Rightarrow> bool \<Rightarrow> u32 \<Rightarrow> u64 \<times> 'o host"
  fo_munmap :: "'o host \<Rightarrow> u64 \<Rightarrow> u64 \<Rightarrow> 'o host"
  fo_close :: "'o host \<Rightarrow> u32 \<Rightarrow> 'o host"
  fo_fopen :: "'o host \<Rightarrow> string \<Rightarrow> u8 list option \<times> 'o host"
  fo_fclose :: "'o host \<Rightarrow> 'o host"

section \<open>Operations\<close>

text \<open>\<open>vm_mem_write\<close> from a buffer in the memory of the process.\<close>

fun vm_mem_copy_loop :: "('w, 'z) machine_scheme \<Rightarrow> u64 \<Rightarrow> u64 \<Rightarrow> nat \<Rightarrow> nat \<Rightarrow>
    (nat \<times> ('w, 'z) machine_scheme) option" where
  "vm_mem_copy_loop m gpa buf bytes_written 0 = Some (bytes_written, m)"
| "vm_mem_copy_loop m gpa buf bytes_written (Suc left) =
     (let hva = gpa_to_hva m gpa
      in if hva = 0 then Some (bytes_written, m)
         else case heap m buf of
           None \<Rightarrow> None
         | Some b \<Rightarrow>
             if heap m hva = None \<or> bytes_written = INT_MAX then None
             else vm_mem_copy_loop (m\<lparr>heap := (heap m)(hva \<mapsto> b)\<rparr>) (gpa + 1) (buf + 1) (Suc bytes_written) left)"

definition vm_mem_copy :: "('w, 'z) machine_scheme \<Rightarrow> u64 \<Rightarrow> u64 \<Rightarrow> u64 \<Rightarrow>
    (nat \<times> ('w, 'z) machine_scheme) option" where
  "vm_mem_copy m gpa buf bytes = vm_mem_copy_loop m gpa buf 0 (unat bytes)"

text \<open>
  \<open>load_raw\<close>; \<open>u\<close> is the uninitialised \<open>st_size\<close>. The result of \<open>mmap\<close> is compared
  with \<open>NULL\<close>, and the count of \<open>vm_mem_write\<close> with the signed \<open>st_size\<close>.
\<close>

definition load_raw :: "'o file_ops \<Rightarrow> u64 \<Rightarrow> ('w, 'o, 'z) process_scheme \<Rightarrow> string option \<Rightarrow> u64 \<Rightarrow>
    (int \<times> ('w, 'o, 'z) process_scheme) option" where
  "load_raw F u m path gpa =
     (case path of
        None \<Rightarrow> Some (-1, m)
      | Some p \<Rightarrow>
          let (f, h) = fo_open F (host m) p; m = set_host h m
          in if f = -1 then Some (-1, m)
             else let (r, st_size, h) = fo_stat F (host m) p u; m = set_host h m
             in if sint r < 0 then Some (-1, set_host (fo_close F (host m) f) m)
                else let (buf, h) = fo_mmap F (host m) st_size False f; m = set_host h m
                in if buf = 0 then Some (-1, set_host (fo_close F (host m) f) m)
                   else do {
                     (n, m) \<leftarrow> vm_mem_copy m gpa buf st_size;
                     let m = set_host (fo_munmap F (host m) buf st_size) m;
                     let m = set_host (fo_close F (host m) f) m;
                     Some (if int n \<noteq> sint st_size then -1 else 0, m)
                   })"

text \<open>The number of pages of a file: a signed division, whose remainder adds a page.\<close>

definition file_pages :: "u64 \<Rightarrow> u64" where
  "file_pages st_size =
     word_of_int (sint st_size sdiv 0x1000) + (if sint st_size smod 0x1000 > 0 then 1 else 0)"

text \<open>The uninitialised locals of \<open>load_mach_obj\<close> and what it calls.\<close>

record load_locals =
  u_magic :: u32
  u_entry_point :: "u8 list"
  u_size :: u64
  u_map :: "nat \<Rightarrow> local_var \<Rightarrow> u64"

text \<open>
  \<open>load_mach_obj\<close>: the result, the value of \<open>*entryoff\<close>, which only a readable entry
  point changes, and the state. The results of the second \<open>open\<close> and of \<open>stat\<close> are not
  checked, and the descriptor is not closed.
\<close>

definition load_mach_obj :: "'o file_ops \<Rightarrow> macho_headers \<Rightarrow> 'w hv_ops \<Rightarrow> host_ops \<Rightarrow> load_locals \<Rightarrow>
    ('w, 'o, 'z) process_scheme \<Rightarrow> string option \<Rightarrow> u64 \<Rightarrow>
    (int \<times> u64 \<times> ('w, 'o, 'z) process_scheme) option" where
  "load_mach_obj F M H A u m path entryoff =
     (let gpa = 0x100000000; gva = gpa
      in case path of
        None \<Rightarrow> Some (-1, entryoff, m)
      | Some p \<Rightarrow>
          let (file, h) = fo_fopen F (host m) p; m = set_host h m
          in case file of
               None \<Rightarrow> Some (-1, entryoff, m)
             | Some bs \<Rightarrow> do {
                 (r, entry_point, s) \<leftarrow> read_entry_point_cmd M (malloc_null A) (u_magic u)
                   \<lparr>s_bytes = bs, s_pos = 0, s_callocs = calls m, s_live = 0, s_log = []\<rparr> (u_entry_point u);
                 let entryoff = (if r = 0 then ep_entryoff M entry_point + gva else entryoff);
                 let m = m\<lparr>calls := s_callocs s\<rparr>;
                 let m = set_host (fo_fclose F (host m)) m;
                 let (f, h) = fo_open F (host m) p; let m = set_host h m;
                 let (r, st_size, h) = fo_stat F (host m) p (u_size u); let m = set_host h m;
                 let (hva, h) = fo_mmap F (host m) st_size True f; let m = set_host h m;
                 if hva = 0 then Some (-1, entryoff, m)
                 else let num_pages = file_pages st_size; (r, m) = map_gpa H A m gpa num_pages hva
                 in if r \<noteq> 0 then Some (-1, entryoff, m)
                    else do {
                      (r, m) \<leftarrow> map_gva H A (u_map u) m gva num_pages gpa;
                      Some (if r \<noteq> 0 then -1 else 0, entryoff, m)
                    }
               })"

section \<open>What the file calls document\<close>

text \<open>
  \<open>content\<close> gives the contents of the files, which do not change while they are loaded,
  and \<open>fd_file\<close> the contents behind an open descriptor. Opening, closing and \<open>stat\<close> leave
  memory alone; \<open>mmap\<close> of a whole file fails with \<open>MAP_FAILED\<close>, which is the address -1,
  or makes fresh pages readable that hold the file and then zeros; \<open>munmap\<close> takes them back.
\<close>

definition whole_pages :: "nat \<Rightarrow> nat" where
  "whole_pages n = 4096 * ((n + 4095) div 4096)"

definition mapped :: "u64 \<Rightarrow> nat \<Rightarrow> u8 list \<Rightarrow> (u64 \<rightharpoonup> u8) \<Rightarrow> (u64 \<rightharpoonup> u8) \<Rightarrow> bool" where
  "mapped p n bs h h' \<longleftrightarrow> page_aligned p \<and> p \<noteq> 0 \<and> unat p + whole_pages n < 2 ^ 64
     \<and> (\<forall>a. in_block p (whole_pages n) a \<longrightarrow> h a = None)
     \<and> h' = (\<lambda>a. if in_block p (whole_pages n) a
         then Some (if unat (a - p) < length bs then bs ! unat (a - p) else 0) else h a)"

definition files_ok :: "'o file_ops \<Rightarrow> (string \<rightharpoonup> u8 list) \<Rightarrow> ('o \<Rightarrow> u32 \<Rightarrow> u8 list option) \<Rightarrow> bool" where
  "files_ok F content fd_file \<longleftrightarrow>
     (\<forall>h p f h'. fo_open F h p = (f, h') \<longrightarrow> snd h' = snd h \<and>
        (f \<noteq> -1 \<longrightarrow> content p \<noteq> None \<and> fd_file (fst h') f = content p))
   \<and> (\<forall>h p old r n h'. fo_stat F h p old = (r, n, h') \<longrightarrow> snd h' = snd h \<and> fd_file (fst h') = fd_file (fst h) \<and>
        (0 \<le> sint r \<longrightarrow> (\<exists>bs. content p = Some bs \<and> n = of_nat (length bs) \<and> length bs < 2 ^ 63)))
   \<and> (\<forall>h n w f p h'. fo_mmap F h n w f = (p, h') \<longrightarrow> p \<noteq> 0 \<and>
        (if p = -1 then snd h' = snd h
         else \<exists>bs. fd_file (fst h) f = Some bs \<and> (unat n = length bs \<longrightarrow> mapped p (unat n) bs (snd h) (snd h'))))
   \<and> (\<forall>h p n. page_aligned p \<longrightarrow> snd (fo_munmap F h p n) =
        (\<lambda>a. if in_block p (whole_pages (unat n)) a then None else snd h a))
   \<and> (\<forall>h f. snd (fo_close F h f) = snd h)
   \<and> (\<forall>h p file h'. fo_fopen F h p = (file, h') \<longrightarrow> snd h' = snd h \<and> (file \<noteq> None \<longrightarrow> file = content p))
   \<and> (\<forall>h. snd (fo_fclose F h) = snd h)"

end
