(* ===== verification/LoaderSpec.thy ===== *)
theory LoaderSpec
  imports Loader
begin

text \<open>
  What the loader relies on and does: the laws of the file calls taken apart, the copy of
  a host buffer as a write of its bytes, a mapping as a region of guest memory, and the
  number of pages of a file.
\<close>

section \<open>The file calls\<close>

lemma files_okD:
  assumes "files_ok F content fd_file"
  shows files_open: "fo_open F h p = (f, h') \<Longrightarrow> snd h' = snd h"
    and files_open_fd: "fo_open F h p = (f, h') \<Longrightarrow> f \<noteq> -1 \<Longrightarrow> content p \<noteq> None \<and> fd_file (fst h') f = content p"
    and files_stat: "fo_stat F h p old = (r, n, h') \<Longrightarrow> snd h' = snd h \<and> fd_file (fst h') = fd_file (fst h)"
    and files_stat_size: "fo_stat F h p old = (r, n, h') \<Longrightarrow> 0 \<le> sint r \<Longrightarrow>
      \<exists>bs. content p = Some bs \<and> n = of_nat (length bs) \<and> length bs < 2 ^ 63"
    and files_mmap: "fo_mmap F h n w f = (q, h') \<Longrightarrow> q \<noteq> 0"
    and files_mmap_bytes: "fo_mmap F h n w f = (q, h') \<Longrightarrow> q \<noteq> -1 \<Longrightarrow>
      \<exists>bs. fd_file (fst h) f = Some bs \<and> (unat n = length bs \<longrightarrow> mapped q (unat n) bs (snd h) (snd h'))"
    and files_munmap: "page_aligned q \<Longrightarrow> snd (fo_munmap F h q n) =
      (\<lambda>a. if in_block q (whole_pages (unat n)) a then None else snd h a)"
    and files_close: "snd (fo_close F h f) = snd h"
    and files_fopen: "fo_fopen F h p = (c, h') \<Longrightarrow> snd h' = snd h \<and> (c \<noteq> None \<longrightarrow> c = content p)"
    and files_fclose: "snd (fo_fclose F h) = snd h"
proof -
  note d = assms [unfolded files_ok_def]
  note d1 = d [THEN conjunct1] and d2 = d [THEN conjunct2, THEN conjunct1]
    and d3 = d [THEN conjunct2, THEN conjunct2, THEN conjunct1]
    and d4 = d [THEN conjunct2, THEN conjunct2, THEN conjunct2, THEN conjunct1]
    and d5 = d [THEN conjunct2, THEN conjunct2, THEN conjunct2, THEN conjunct2, THEN conjunct1]
    and d6 = d [THEN conjunct2, THEN conjunct2, THEN conjunct2, THEN conjunct2, THEN conjunct2]
  show "fo_open F h p = (f, h') \<Longrightarrow> snd h' = snd h"
    "fo_open F h p = (f, h') \<Longrightarrow> f \<noteq> -1 \<Longrightarrow> content p \<noteq> None \<and> fd_file (fst h') f = content p"
    using d1 by blast+
  show "fo_stat F h p old = (r, n, h') \<Longrightarrow> snd h' = snd h \<and> fd_file (fst h') = fd_file (fst h)"
    "fo_stat F h p old = (r, n, h') \<Longrightarrow> 0 \<le> sint r \<Longrightarrow>
      \<exists>bs. content p = Some bs \<and> n = of_nat (length bs) \<and> length bs < 2 ^ 63"
    using d2 by blast+
  show "fo_mmap F h n w f = (q, h') \<Longrightarrow> q \<noteq> 0"
    using d3 by blast
  show "fo_mmap F h n w f = (q, h') \<Longrightarrow> q \<noteq> -1 \<Longrightarrow>
      \<exists>bs. fd_file (fst h) f = Some bs \<and> (unat n = length bs \<longrightarrow> mapped q (unat n) bs (snd h) (snd h'))"
    using d3 by presburger
  show "page_aligned q \<Longrightarrow> snd (fo_munmap F h q n) =
      (\<lambda>a. if in_block q (whole_pages (unat n)) a then None else snd h a)"
    using d4 by blast
  show "snd (fo_close F h f) = snd h"
    using d5 by blast
  show "fo_fopen F h p = (c, h') \<Longrightarrow> snd h' = snd h \<and> (c \<noteq> None \<longrightarrow> c = content p)"
    "snd (fo_fclose F h) = snd h"
    using d6 by blast+
qed

lemma mappedD:
  assumes "mapped p n bs h h'"
  shows "page_aligned p" "p \<noteq> 0" "unat p + whole_pages n < 2 ^ 64"
    and "in_block p (whole_pages n) a \<Longrightarrow> h a = None"
    and "in_block p (whole_pages n) a \<Longrightarrow> h' a = Some (if unat (a - p) < length bs then bs ! unat (a - p) else 0)"
    and "\<not> in_block p (whole_pages n) a \<Longrightarrow> h' a = h a"
  using assms by (simp_all add: mapped_def)

lemma whole_pages_ge: "n \<le> whole_pages n"
  unfolding whole_pages_def by linarith

lemma mapped_byte:
  assumes "mapped p n bs h h'" "i < n" "i < length bs"
  shows "h' (p + of_nat i) = Some (bs ! i)"
proof -
  have "i < whole_pages n" "whole_pages n < 2 ^ 64"
    using assms(2) whole_pages_ge [of n] mappedD(3) [OF assms(1)] by simp_all
  then have "in_block p (whole_pages n) (p + of_nat i)" "unat (of_nat i :: u64) = i"
    by (auto intro!: in_blockI unat_of_nat_small)
  with mappedD(5) [OF assms(1)] assms(3) show ?thesis by simp
qed

section \<open>Copies\<close>

lemma vm_mem_copy_loop_eq:
  assumes "mem_inv m" "\<And>i. i < length bs \<Longrightarrow> heap m (buf + of_nat i) = Some (bs ! i)"
    and "\<And>g i. i < length bs \<Longrightarrow> gpa_to_hva m g \<noteq> 0 \<Longrightarrow> gpa_to_hva m g \<noteq> buf + of_nat i"
  shows "vm_mem_copy_loop m gpa buf k (length bs) = vm_mem_write_loop m gpa k bs"
  using assms
proof (induction bs arbitrary: m gpa buf k)
  case Nil
  then show ?case by simp
next
  case (Cons b bs)
  show ?case
  proof (cases "gpa_to_hva m gpa = 0")
    case True
    then show ?thesis by simp
  next
    case False
    let ?m = "m\<lparr>heap := (heap m)(gpa_to_hva m gpa \<mapsto> b)\<rparr>"
    have b: "heap m buf = Some b"
      using Cons.prems(2) [of 0] by simp
    have src: "heap ?m (buf + 1 + of_nat i) = Some (bs ! i)" if "i < length bs" for i
      using Cons.prems(2) [of "Suc i"] Cons.prems(3) [of "Suc i" gpa] that False by (auto simp: add.assoc)
    have "vm_mem_copy_loop ?m (gpa + 1) (buf + 1) (Suc k) (length bs) = vm_mem_write_loop ?m (gpa + 1) (Suc k) bs"
    proof (rule Cons.IH)
      show "mem_inv ?m"
        using Cons.prems(1) by (rule mem_inv_heap_upd)
      show "gpa_to_hva ?m g \<noteq> buf + 1 + of_nat i" if "i < length bs" "gpa_to_hva ?m g \<noteq> 0" for g i
        using Cons.prems(3) [of "Suc i" g] that by (simp add: add.assoc)
    qed (rule src)
    with False b show ?thesis
      by (simp add: Let_def)
  qed
qed

lemma host_parts [simp]: "snd (host m) = heap m" "fst (host m) = os m"
  by (simp_all add: host_def)

lemma set_host_memory:
  assumes "mem_inv m" "keeps_guest m (snd h)"
  shows "mem_inv (set_host h m)" and "gbyte (set_host h m) = gbyte m"
  by (rule keeps_guest_memory [OF assms]; simp)+

lemma set_host_same:
  assumes "snd h = heap m"
  shows "mem_inv (set_host h m) \<longleftrightarrow> mem_inv m" and "gbyte (set_host h m) = gbyte m"
proof -
  show "mem_inv (set_host h m) \<longleftrightarrow> mem_inv m"
    using assms by (simp add: mem_inv_def backed_def)
  show "gbyte (set_host h m) = gbyte m"
    using assms by (simp add: gbyte_def gpa_to_hva_def fun_eq_iff)
qed

lemma mapped_keeps_guest:
  "mem_inv m \<Longrightarrow> mapped p n bs (heap m) h \<Longrightarrow> keeps_guest m h"
  by (rule keeps_guest_fresh [where B = "in_block p (whole_pages n)"]) (simp_all add: mappedD)

lemma mapped_apart_guest:
  assumes inv: "mem_inv m" and map: "mapped p n bs (heap m) h" and i: "i < n" and g: "gpa_to_hva m g \<noteq> 0"
  shows "gpa_to_hva m g \<noteq> p + of_nat i"
proof
  assume eq: "gpa_to_hva m g = p + of_nat i"
  have "i < whole_pages n" "whole_pages n < 2 ^ 64"
    using i whole_pages_ge [of n] mappedD(3) [OF map] by simp_all
  then have "in_block p (whole_pages n) (p + of_nat i)"
    by (intro in_blockI) simp_all
  with mappedD(4) [OF map] heap_gpa_to_hva [OF inv g] eq show False by simp
qed

text \<open>Writing a mapped file into the guest and taking the mapping back.\<close>

lemma copy_mapped_file:
  assumes inv: "mem_inv m" and map: "mapped p (length bs) bs (heap m) (snd h)"
    and small: "length bs \<le> INT_MAX"
  obtains m1 where "vm_mem_copy (set_host h m) gpa p (of_nat (length bs)) = Some (span (gbyte m) gpa (length bs), m1)"
    "mem_inv m1" "gbyte m1 = poke (gbyte m) gpa (take (span (gbyte m) gpa (length bs)) bs)"
    "\<exists>h'. m1 = (set_host h m)\<lparr>heap := h'\<rparr> \<and> dom h' = dom (snd h)"
    "keeps_guest m1 (\<lambda>a. if in_block p (whole_pages (length bs)) a then None else heap m1 a)"
proof -
  let ?m = "set_host h m"
  note sm = set_host_memory [OF inv mapped_keeps_guest [OF inv map]]
  have hva: "gpa_to_hva ?m = gpa_to_hva m"
    by (simp add: gpa_to_hva_def fun_eq_iff)
  have len: "unat (of_nat (length bs) :: u64) = length bs"
    using small by (intro unat_of_nat_small) (simp add: INT_MAX_def)
  have "vm_mem_copy_loop ?m gpa p 0 (length bs) = vm_mem_write_loop ?m gpa 0 bs"
    using mapped_byte [OF map] mapped_apart_guest [OF inv map]
    by (intro vm_mem_copy_loop_eq sm(1)) (simp_all add: hva)
  then have eq: "vm_mem_copy ?m gpa p (of_nat (length bs)) = vm_mem_write ?m gpa bs"
    unfolding vm_mem_copy_def vm_mem_write_def len .
  obtain m1 where m1: "vm_mem_write ?m gpa bs = Some (span (gbyte ?m) gpa (length bs), m1)" "mem_inv m1"
    "gbyte m1 = poke (gbyte ?m) gpa (take (span (gbyte ?m) gpa (length bs)) bs)"
    using gm.write_law [OF sm(1) small, of gpa] by blast
  obtain h' where h': "m1 = ?m\<lparr>heap := h'\<rparr>" "dom h' = dom (heap ?m)"
    using vm_mem_write_frame [OF sm(1) small m1(1)] .
  have "keeps_guest m1 (\<lambda>a. if in_block p (whole_pages (length bs)) a then None else heap m1 a)"
    using mappedD(4) [OF map] inv h' unfolding keeps_guest_def mem_inv_def backed_def by fastforce
  with m1 h' eq show thesis
    unfolding sm(2) by (intro that [of m1]) auto
qed

section \<open>Mappings as regions\<close>

lemma file_pages_of_nat:
  assumes "n < 2 ^ 63"
  shows "unat (file_pages (of_nat n)) * 4096 = whole_pages n"
proof -
  have n: "sint (of_nat n :: u64) = int n"
    using assms by (simp add: signed_of_nat signed_take_bit_int_eq_self)
  have "int n sdiv 4096 = int (n div 4096)" "int n smod 4096 = int (n mod 4096)"
    by (cases "n = 0"; simp add: signed_divide_int_eq_divide_int signed_modulo_int_eq_modulo_int zdiv_int zmod_int)+
  moreover have up: "(n + 4095) div 4096 = n div 4096 + (if 0 < n mod 4096 then 1 else 0)"
  proof -
    have "(n mod 4096 + 4095) div 4096 = (if 0 < n mod 4096 then 1 else 0)"
    proof (cases "n mod 4096")
      case (Suc k)
      then have "k < 4096"
        using mod_less_divisor [of 4096 n] by simp
      then have "(4096 + k) div 4096 = 1"
        by (intro div_nat_eqI) simp_all
      with Suc show ?thesis by simp
    qed simp
    moreover have "(n + 4095) div 4096 = n div 4096 + (n mod 4096 + 4095) div 4096"
      using div_mult_self3 [of 4096 "n div 4096" "n mod 4096 + 4095"] mult_div_mod_eq [of 4096 n]
      by (simp add: add.assoc [symmetric])
    ultimately show ?thesis by simp
  qed
  ultimately have "file_pages (of_nat n) = of_nat ((n + 4095) div 4096)"
    by (simp add: file_pages_def n up)
  moreover have "unat (of_nat ((n + 4095) div 4096) :: u64) = (n + 4095) div 4096"
    using assms by (intro unat_of_nat_small) simp
  ultimately show ?thesis
    by (simp add: whole_pages_def)
qed

end
