(* ===== verification/LoaderRuns.thy ===== *)
theory LoaderRuns
  imports LoaderSpec VirtInit
begin

text \<open>
  The runs of \<open>load_raw\<close> and \<open>load_mach_obj\<close> taken apart: what each changes of the state
  of the process, byte for byte in guest memory and page for page in the page tables. The
  properties of the loader and of the boot sequence rest on these lemmas.
\<close>

section \<open>load_raw\<close>

text \<open>Only the contents of host memory and the state of the system differ.\<close>

definition host_step :: "('w, 'o, 'z) process_scheme \<Rightarrow> ('w, 'o, 'z) process_scheme \<Rightarrow> bool" where
  "host_step m m' \<longleftrightarrow> (\<exists>h s. m' = m\<lparr>heap := h, os := s\<rparr> \<and> dom h = dom (heap m))"

lemma host_stepI: "m' = m\<lparr>heap := h, os := s\<rparr> \<Longrightarrow> dom h = dom (heap m) \<Longrightarrow> host_step m m'"
  unfolding host_step_def by blast

lemma host_stepD:
  assumes "host_step m m'"
  shows "mem_regions m' = mem_regions m" "pml4 m' = pml4 m" "pml4_gpa m' = pml4_gpa m"
    and "world m' = world m" "calls m' = calls m" "failures m' = failures m"
    and "dom (heap m') = dom (heap m)" "plugin_table m' = plugin_table m"
proof -
  obtain h s where "m' = m\<lparr>heap := h, os := s\<rparr>" "dom h = dom (heap m)"
    using assms unfolding host_step_def by blast
  then show "mem_regions m' = mem_regions m" "pml4 m' = pml4 m" "pml4_gpa m' = pml4_gpa m"
    "world m' = world m" "calls m' = calls m" "failures m' = failures m"
    "dom (heap m') = dom (heap m)" "plugin_table m' = plugin_table m"
    by simp_all
qed

text \<open>Copying from the mapping, taking it back and closing the descriptor.\<close>

lemma load_raw_copy:
  assumes inv: "mem_inv m" and F: "files_ok F content fd_file" and small: "length bs \<le> INT_MAX"
    and map: "mapped buf (length bs) bs (heap m) (snd h)" and n: "n = of_nat (length bs)"
  obtains m1 m' where "vm_mem_copy (set_host h m) gpa buf n = Some (span (gbyte m) gpa (length bs), m1)"
    "m' = set_host (fo_close F (fo_munmap F (host m1) buf n) f) (set_host (fo_munmap F (host m1) buf n) m1)"
    "mem_inv m'" "host_step m m'" "gbyte m' = poke (gbyte m) gpa (take (span (gbyte m) gpa (length bs)) bs)"
proof -
  have un: "unat n = length bs"
    using small unfolding n by (intro unat_of_nat_small) (simp add: INT_MAX_def)
  obtain m1 where cp: "vm_mem_copy (set_host h m) gpa buf n = Some (span (gbyte m) gpa (length bs), m1)"
    and m1: "mem_inv m1" "gbyte m1 = poke (gbyte m) gpa (take (span (gbyte m) gpa (length bs)) bs)"
    and fr: "\<exists>h'. m1 = (set_host h m)\<lparr>heap := h'\<rparr> \<and> dom h' = dom (snd h)"
    and kg: "keeps_guest m1 (\<lambda>a. if in_block buf (whole_pages (length bs)) a then None else heap m1 a)"
    using copy_mapped_file [OF inv map small, of gpa] unfolding n by blast
  obtain h' where h': "m1 = (set_host h m)\<lparr>heap := h'\<rparr>" "dom h' = dom (snd h)"
    using fr by blast
  define h4 where "h4 = fo_munmap F (host m1) buf n"
  define h5 where "h5 = fo_close F h4 f"
  have h4: "snd h4 = (\<lambda>a. if in_block buf (whole_pages (length bs)) a then None else heap m1 a)"
    using files_munmap [OF F mappedD(1) [OF map], of "host m1" n] by (simp add: h4_def un cong del: if_weak_cong)
  note s4 = set_host_memory [OF m1(1), of h4, unfolded h4, OF kg]
  have h5: "snd h5 = heap (set_host h4 m1)"
    using files_close [OF F] by (simp add: h5_def)
  note s5 = set_host_same [OF h5]
  have "dom (snd h5) = dom (heap m)"
    unfolding h5 using h4 h'(2) mappedD(4-6) [OF map] by (auto simp: h'(1) dom_def set_eq_iff)
  then have "host_step m (set_host h5 (set_host h4 m1))"
    using h'(1) by (intro host_stepI [where h = "snd h5" and s = "fst h5"]) (simp_all add: set_host_def)
  with cp s4 s5 m1 show thesis
    by (intro that [of m1 "set_host h5 (set_host h4 m1)"]) (simp_all add: h4_def h5_def)
qed

lemma load_raw_run:
  assumes inv: "mem_inv m" and F: "files_ok F content fd_file"
    and bs: "content p = Some bs" "length bs \<le> INT_MAX"
    and mmap: "\<forall>h f. snd h = heap m \<longrightarrow> fst (fo_mmap F h (of_nat (length bs)) False f) \<noteq> -1"
  shows "\<exists>r m'. load_raw F u m (Some p) gpa = Some (r, m') \<and> mem_inv m' \<and> host_step m m'
    \<and> (r = 0 \<and> avail (gbyte m) gpa (length bs) \<and> gbyte m' = poke (gbyte m) gpa bs
      \<or> r = -1 \<and> (fst (fo_open F (host m) p) = -1 \<or> (\<exists>h. sint (fst (fo_stat F h p u)) < 0)) \<and> gbyte m' = gbyte m
      \<or> r = -1 \<and> \<not> avail (gbyte m) gpa (length bs)
        \<and> gbyte m' = poke (gbyte m) gpa (take (span (gbyte m) gpa (length bs)) bs))"
proof -
  obtain f h1 where op: "fo_open F (host m) p = (f, h1)" by (metis surj_pair)
  have h1: "snd h1 = heap m"
    using files_open [OF F op] by (simp add: host_def)
  note same1 = set_host_same [OF h1]
  show ?thesis
  proof (cases "f = -1")
    case True
    moreover have "host_step m (set_host h1 m)"
      using h1 by (intro host_stepI) (auto simp: set_host_def)
    ultimately show ?thesis
      using op inv same1 by (auto simp: load_raw_def intro!: exI [of _ "-1"] exI [of _ "set_host h1 m"])
  next
    case False
    obtain r n h2 where st: "fo_stat F h1 p u = (r, n, h2)" by (metis surj_pair)
    have h2: "snd h2 = heap m" "fd_file (fst h2) f = Some bs"
      using files_stat [OF F st] files_open_fd [OF F op False] h1 bs(1) by simp_all
    show ?thesis
    proof (cases "sint r < 0")
      case True
      define h where "h = fo_close F h2 f"
      have h: "snd h = heap m"
        using files_close [OF F] h2 by (simp add: h_def)
      have "load_raw F u m (Some p) gpa = Some (-1, set_host h (set_host h2 (set_host h1 m)))"
        using op False st True by (simp add: load_raw_def h_def)
      moreover have "gbyte (set_host h (set_host h2 (set_host h1 m))) = gbyte m"
        "mem_inv (set_host h (set_host h2 (set_host h1 m)))"
        using h h2 h1 inv by (simp_all add: set_host_same)
      moreover have "\<exists>h. sint (fst (fo_stat F h p u)) < 0"
        using st True by (metis fst_conv)
      moreover have "host_step m (set_host h (set_host h2 (set_host h1 m)))"
        using h by (intro host_stepI) (auto simp: set_host_def)
      ultimately show ?thesis by auto
    next
      case False': False
      have n: "n = of_nat (length bs)"
        using files_stat_size [OF F st] False' bs(1) by auto
      have un: "unat n = length bs"
        using bs(2) unfolding n by (intro unat_of_nat_small) (simp add: INT_MAX_def)
      have sn: "sint n = int (length bs)"
        using bs(2) unfolding n by (simp add: signed_of_nat signed_take_bit_int_eq_self INT_MAX_def)
      obtain buf h3 where mm: "fo_mmap F h2 n False f = (buf, h3)" by (metis surj_pair)
      have "buf \<noteq> -1"
        using mmap h2(1) mm n by (metis fst_conv)
      with files_mmap_bytes [OF F mm] h2 un have map: "mapped buf (length bs) bs (heap m) (snd h3)"
        by auto
      have buf: "buf \<noteq> 0"
        using files_mmap [OF F mm] .
      have eq: "set_host h3 (set_host h2 (set_host h1 m)) = set_host h3 m"
        by (simp add: set_host_def)
      obtain m1 m' where cp: "vm_mem_copy (set_host h3 m) gpa buf n = Some (span (gbyte m) gpa (length bs), m1)"
        and m': "m' = set_host (fo_close F (fo_munmap F (host m1) buf n) f) (set_host (fo_munmap F (host m1) buf n) m1)"
        and good: "mem_inv m'" "host_step m m'" "gbyte m' = poke (gbyte m) gpa (take (span (gbyte m) gpa (length bs)) bs)"
        by (rule load_raw_copy [OF inv F bs(2) map n])
      have ret: "load_raw F u m (Some p) gpa = Some (if span (gbyte m) gpa (length bs) = length bs then 0 else -1, m')"
        using op False st False' mm buf cp by (simp add: load_raw_def eq sn m')
      show ?thesis
      proof (cases "avail (gbyte m) gpa (length bs)")
        case True
        then show ?thesis
          using ret good by (simp add: span_eq_iff avail_take)
      next
        case False
        then show ?thesis
          using ret good by (simp add: span_eq_iff)
      qed
    qed
  qed
qed

section \<open>load_mach_obj\<close>

text \<open>A file's mapping as a new region of guest memory.\<close>

lemma map_gpa_file:
  assumes inv: "mem_inv m" and map: "mapped hva (length bs) bs (heap m) (snd h)"
    and pages: "unat np * 4096 = whole_pages (length bs)"
    and al: "page_aligned gpa" and top: "unat gpa + whole_pages (length bs) < 2 ^ 64"
    and ret: "map_gpa H A (set_host h m) gpa np hva = (0, m')"
  shows "mem_inv m'" and "frame (\<lambda>x. False) m m'"
    and "i < length bs \<Longrightarrow> gbyte m' (gpa + of_nat i) = Some (bs ! i)"
    and "i < length bs \<Longrightarrow> gbyte m (gpa + of_nat i) = None"
    and "phys_top (mem_regions m') \<le> max (phys_top (mem_regions m)) (unat gpa + whole_pages (length bs))"
    and "pml4 m' = pml4 m" and "pml4_gpa m' = pml4_gpa m" and "failures m' = failures m"
proof -
  let ?new = "\<lparr>r_gpa = gpa, r_npages = np, r_hva = hva\<rparr>" and ?m = "set_host h m"
  have id: "?new = \<lparr>r_gpa = gpa AND 0xFFFFFFFFFFFFF000, r_npages = np, r_hva = hva\<rparr>"
    using al by (simp add: page_mask_id)
  have size: "r_size ?new = whole_pages (length bs)"
    using pages by (simp add: r_size_def)
  note sm = set_host_memory [OF inv mapped_keeps_guest [OF inv map]]
  have "0 < np"
    using map_gpa_success [OF ret id] by blast
  then have pos: "0 < r_size ?new"
    by (simp add: r_size_def word_less_nat_alt)
  have hva: "0 < unat hva"
    using mappedD(2) [OF map] by (simp add: unat_gt_0)
  have ok: "region_ok ?new"
    using al \<open>0 < np\<close> hva top mappedD(3) [OF map] size
    by (simp add: region_ok_def r_hi_def r_lo_def h_lo_def)
  have apart: "host_apart q ?new" if "q \<in> set (mem_regions m)" for q
    using mappedD(3,4) [OF map] pos size
    by (intro fresh_block_apart [OF inv that]) (simp_all add: h_lo_def)
  have buf: "buffer_ok ?m ?new"
    using apart mappedD(5) [OF map] unfolding buffer_ok_def size by simp
  note mg = map_gpa_inv [OF sm(1) ret id ok buf]
  show inv': "mem_inv m'" by (rule mg)
  show "pml4 m' = pml4 m" "pml4_gpa m' = pml4_gpa m"
    using mg by simp_all
  show "failures m' = failures m"
    using mg(5) by (simp add: set_host_def)
  have byte: "gbyte m' g = (if in_region ?new g then heap ?m (hva + (g - gpa)) else gbyte m g)" for g
    using gbyte_insert [OF sm(1) inv' mg(2,4)] by (simp add: sm(2))
  have none: "gbyte m g = None" if "in_region ?new g" for g
  proof (rule ccontr)
    assume "gbyte m g \<noteq> None"
    then obtain q where q: "q \<in> set (mem_regions m)" "in_region q g"
      unfolding gbyte_mapped_iff [OF inv] by blast
    have "\<not> (\<exists>p \<in> set (mem_regions m). overlaps p ?new)"
      using mg(3) insert_region_None_iff [OF mem_inv_wf [OF sm(1)] ok] by simp
    with q that show False
      by (auto simp: overlaps_def in_region_def)
  qed
  then show "frame (\<lambda>x. False) m m'"
    unfolding frame_def byte by auto
  have inr: "in_region ?new (gpa + of_nat i)" and off: "gpa + of_nat i - gpa = (of_nat i :: u64)"
    if "i < length bs" for i
  proof -
    have "i < whole_pages (length bs)"
      using that whole_pages_ge [of "length bs"] by simp
    moreover from this have "unat (gpa + of_nat i) = unat gpa + i"
      using top by (intro unat_add_of_nat) simp
    ultimately show "in_region ?new (gpa + of_nat i)"
      by (simp add: in_region_def r_hi_def r_lo_def size)
  qed simp
  show "gbyte m' (gpa + of_nat i) = Some (bs ! i)" if "i < length bs"
    using inr [OF that] mapped_byte [OF map that that] by (simp add: byte)
  show "gbyte m (gpa + of_nat i) = None" if "i < length bs"
    using none inr [OF that] by blast
  show "phys_top (mem_regions m') \<le> max (phys_top (mem_regions m)) (unat gpa + whole_pages (length bs))"
    using phys_top_insert [OF mem_inv_wf [OF sm(1)] mem_inv_wf [OF inv'] mg(2)]
    by (simp add: r_hi_def r_lo_def size)
qed

lemma same_bytes_tables:
  assumes "gbyte m' = gbyte m" "pml4_gpa m' = pml4_gpa m" "pml4 m' = pml4 m"
  shows "pt_inv m' \<longleftrightarrow> pt_inv m" and "tbyte m' = tbyte m"
proof -
  have e: "ent m' = ent m"
    using assms(1) by (intro ext) (simp add: ent_def)
  have "page_ok m' = page_ok m"
    using assms(1) by (intro ext) (simp add: page_ok_def)
  with e show "pt_inv m' \<longleftrightarrow> pt_inv m"
    by (simp add: pt_inv_def pt_ok_def assms)
  show "tbyte m' = tbyte m"
    by (intro ext) (simp add: tbyte_def table_byte_def table_def e assms)
qed

text \<open>Mapping fresh pages and then entering them in the page tables.\<close>

lemma map_file:
  assumes inv: "mem_inv m" "pt_inv m" and A: "valloc_ok A" "valloc_zeroed A"
    and map: "mapped hva (length bs) bs (heap m) (snd h)"
    and pages: "unat np * 4096 = whole_pages (length bs)" and al: "page_aligned gpa"
    and top: "unat gpa + whole_pages (length bs) \<le> 2 ^ 48"
    and room: "max (phys_top (mem_regions m)) (unat gpa + whole_pages (length bs)) + (3 * unat np + 1) * 4096 \<le> 2 ^ 52"
    and r1: "map_gpa H A (set_host h m) gpa np hva = (0, m1)"
    and r2: "map_gva H A v m1 gpa np gpa = Some (r, m')" and f: "failures m' = failures m"
  shows "mem_inv m'" and "pt_inv m'"
    and "i < length bs \<Longrightarrow> gva_to_gpa e m' (gpa + of_nat i) = Some (gpa + of_nat i)"
    and "i < length bs \<Longrightarrow> gbyte m' (gpa + of_nat i) = Some (bs ! i)"
    and "frame (tbyte m) m m'" and "gbyte m x \<noteq> None \<Longrightarrow> tbyte m' x \<Longrightarrow> tbyte m x"
    and "pml4 m' \<noteq> 0" and "pte m' = map_pages (pte m1) gpa gpa (unat np)" and "frame (\<lambda>x. False) m m1"
    and "pml4 m \<noteq> 0 \<Longrightarrow> pml4 m' = pml4 m \<and> pml4_gpa m' = pml4_gpa m"
    and "pml4 m1 = pml4 m" and "pml4_gpa m1 = pml4_gpa m"
proof -
  have top': "unat gpa + whole_pages (length bs) < 2 ^ 64"
    using top by simp
  note g = map_gpa_file [OF inv(1) map pages al top' r1]
  have pt: "pt_inv m1"
    using inv(2) frame_tables(1) [OF _ g(2,7)] g(6) unfolding pt_inv_def by metis
  have tb: "tbyte m1 x \<longleftrightarrow> tbyte m x" for x
    using inv(2) frame_tables(2) [OF _ g(2,7)] g(6) unfolding pt_inv_def tbyte_def by metis
  have "table_room m1 np"
    using g(5) room by (simp add: table_room_def)
  note mg = map_gva_maps [OF g(1) pt A this r2 f [folded g(8)]]
  show "mem_inv m'" "pt_inv m'"
    using mg by (simp_all add: pt_inv_def)
  have gpa: "gpa AND 0xFFFFFFFFFFFFF000 = gpa"
    using al by (rule page_mask_id)
  show "gva_to_gpa e m' (gpa + of_nat i) = Some (gpa + of_nat i)" if "i < length bs"
    using that whole_pages_ge [of "length bs"] pages top
    by (intro mmu.mapped_range [OF conjI [OF mg(2,3)] al al mg(5) [unfolded gpa]]) simp_all
  show "gbyte m' (gpa + of_nat i) = Some (bs ! i)" if "i < length bs"
  proof -
    have "\<not> tbyte m (gpa + of_nat i)"
      using g(4) [OF that] inv(2) pt_ok_page page_block_mapped
      unfolding tbyte_def pt_inv_def table_byte_def by metis
    with mg(6) g(3) [OF that] show ?thesis
      by (simp add: frame_def tb)
  qed
  show "pml4 m' \<noteq> 0" "pte m' = map_pages (pte m1) gpa gpa (unat np)"
    "pml4 m1 = pml4 m" "pml4_gpa m1 = pml4_gpa m" "frame (\<lambda>x. False) m m1"
    using mg(4,5) g(2,6,7) by (simp_all add: gpa)
  show "pml4 m' = pml4 m \<and> pml4_gpa m' = pml4_gpa m" if "pml4 m \<noteq> 0"
    using mg(8) that by (simp add: g)
  show "frame (tbyte m) m m'"
    using mg(6) g(2) unfolding frame_def tb by metis
  show "tbyte m x" if "gbyte m x \<noteq> None" "tbyte m' x"
    using mg(7) that g(2) unfolding frame_def tb by metis
qed

text \<open>
  After the reader has returned: the calls up to \<open>mmap\<close> leave memory alone, and what is left
  of the function are the two mappings.
\<close>

lemma load_mach_obj_eq:
  assumes F: "files_ok F content fd_file" and bs: "content p = Some bs"
    and opens: "\<forall>h. fst (fo_open F h p) \<noteq> -1 \<and> 0 \<le> sint (fst (fo_stat F h p (u_size u)))"
    and mmap: "\<forall>h f. snd h = heap m \<longrightarrow> fst (fo_mmap F h (of_nat (length bs)) True f) \<noteq> -1"
    and fo: "fo_fopen F (host m) p = (Some bs, h1)"
    and rd: "read_entry_point_cmd M (malloc_null A) (u_magic u)
      \<lparr>s_bytes = bs, s_pos = 0, s_callocs = calls m, s_live = 0, s_log = []\<rparr> (u_entry_point u) = Some (r, ep, s)"
    and np: "np = file_pages (of_nat (length bs))"
    and e: "e = (if r = 0 then ep_entryoff M ep + 0x100000000 else e0)"
  obtains o1 hva h where "mapped hva (length bs) bs (heap m) (snd h)" "unat np * 4096 = whole_pages (length bs)"
    "load_mach_obj F M H A u m (Some p) e0 =
      (let (q, m1) = map_gpa H A (set_host h (m\<lparr>os := o1, calls := s_callocs s\<rparr>)) 0x100000000 np hva
       in if q \<noteq> 0 then Some (-1, e, m1)
          else do { (q, m2) \<leftarrow> map_gva H A (u_map u) m1 0x100000000 np 0x100000000; Some (if q \<noteq> 0 then -1 else 0, e, m2) })"
proof -
  have h1: "snd h1 = heap m"
    using files_fopen [OF F fo] by simp
  define m0 where "m0 = m\<lparr>os := fst h1, calls := s_callocs s\<rparr>"
  have m0: "(set_host h1 m)\<lparr>calls := s_callocs s\<rparr> = m0"
    using h1 by (simp add: m0_def set_host_def)
  define h2 where "h2 = fo_fclose F (host m0)"
  obtain fd h3 where op: "fo_open F h2 p = (fd, h3)" by (metis surj_pair)
  obtain r2 n h4 where st: "fo_stat F h3 p (u_size u) = (r2, n, h4)" by (metis surj_pair)
  obtain hva h5 where mm: "fo_mmap F h4 n True fd = (hva, h5)" by (metis surj_pair)
  have fd: "fd \<noteq> -1" and r2: "0 \<le> sint r2"
    using opens op st by (metis fst_conv)+
  have h4: "snd h4 = heap m" "fd_file (fst h4) fd = Some bs"
    using files_open [OF F op] files_open_fd [OF F op fd] files_stat [OF F st] files_fclose [OF F, of "host m0"] bs
    by (simp_all add: h2_def m0_def host_def)
  have n: "n = of_nat (length bs)" "length bs < 2 ^ 63"
    using files_stat_size [OF F st r2] bs by auto
  have "hva \<noteq> -1"
    using mmap h4(1) mm n(1) by (metis fst_conv)
  with files_mmap_bytes [OF F mm] h4 n have map: "mapped hva (length bs) bs (heap m) (snd h5)"
    by (auto simp: unat_of_nat_small)
  have last: "set_host h5 (set_host h4 (set_host h3 (set_host h2 m0))) = set_host h5 m0"
    "host (set_host h2 m0) = h2" "host (set_host h3 (set_host h2 m0)) = h3"
    "host (set_host h4 (set_host h3 (set_host h2 m0))) = h4"
    by (simp_all add: set_host_def host_def)
  have rd': "read_entry_point_cmd M (malloc_null A) (u_magic u)
      \<lparr>s_bytes = bs, s_pos = 0, s_callocs = calls (set_host h1 m), s_live = 0, s_log = []\<rparr> (u_entry_point u) = Some (r, ep, s)"
    using rd by (simp add: set_host_def)
  show thesis
  proof (rule that [OF map])
    show "unat np * 4096 = whole_pages (length bs)"
      using file_pages_of_nat n by (simp add: np)
    show "load_mach_obj F M H A u m (Some p) e0 =
      (let (q, m1) = map_gpa H A (set_host h5 (m\<lparr>os := fst h1, calls := s_callocs s\<rparr>)) 0x100000000 np hva
       in if q \<noteq> 0 then Some (-1, e, m1)
          else do { (q, m2) \<leftarrow> map_gva H A (u_map u) m1 0x100000000 np 0x100000000; Some (if q \<noteq> 0 then -1 else 0, e, m2) })"
      using fo rd' op st mm mappedD(2) [OF map] unfolding np e n(1)
      by (simp add: load_mach_obj_def Let_def last n(1) m0 flip: m0_def h2_def cong del: if_weak_cong)
  qed
qed

text \<open>A successful call, down to the mapping and the two entries it makes of it.\<close>

lemma load_mach_obj_run:
  assumes F: "files_ok F content fd_file" and bs: "content p = Some bs"
    and opens: "\<forall>h. fst (fo_open F h p) \<noteq> -1 \<and> 0 \<le> sint (fst (fo_stat F h p (u_size u)))"
    and mmap: "\<forall>h f. snd h = heap m \<longrightarrow> fst (fo_mmap F h (of_nat (length bs)) True f) \<noteq> -1"
    and ret: "load_mach_obj F M H A u m (Some p) e0 = Some (0, e, m')"
  obtains r ep s o1 hva h m1 where
    "read_entry_point_cmd M (malloc_null A) (u_magic u)
      \<lparr>s_bytes = bs, s_pos = 0, s_callocs = calls m, s_live = 0, s_log = []\<rparr> (u_entry_point u) = Some (r, ep, s)"
    "e = (if r = 0 then ep_entryoff M ep + 0x100000000 else e0)"
    "mapped hva (length bs) bs (heap m) (snd h)"
    "unat (file_pages (of_nat (length bs))) * 4096 = whole_pages (length bs)"
    "map_gpa H A (set_host h (m\<lparr>os := o1, calls := s_callocs s\<rparr>)) 0x100000000 (file_pages (of_nat (length bs))) hva = (0, m1)"
    "map_gva H A (u_map u) m1 0x100000000 (file_pages (of_nat (length bs))) 0x100000000 = Some (0, m')"
proof -
  obtain c h1 where fo: "fo_fopen F (host m) p = (c, h1)" by (metis surj_pair)
  with ret have c: "c = Some bs"
    using files_fopen [OF F fo] bs by (auto simp: load_mach_obj_def Let_def split: option.splits)
  obtain r ep s where rd: "read_entry_point_cmd M (malloc_null A) (u_magic u)
      \<lparr>s_bytes = bs, s_pos = 0, s_callocs = calls m, s_live = 0, s_log = []\<rparr> (u_entry_point u) = Some (r, ep, s)"
    using ret fo by (auto simp: load_mach_obj_def Let_def c set_host_def split: Option.bind_splits)
  obtain o1 hva h where map: "mapped hva (length bs) bs (heap m) (snd h)"
    "unat (file_pages (of_nat (length bs))) * 4096 = whole_pages (length bs)"
    and eq: "load_mach_obj F M H A u m (Some p) e0 =
      (let np = file_pages (of_nat (length bs)); e = if r = 0 then ep_entryoff M ep + 0x100000000 else e0;
           (q, m1) = map_gpa H A (set_host h (m\<lparr>os := o1, calls := s_callocs s\<rparr>)) 0x100000000 np hva
       in if q \<noteq> 0 then Some (-1, e, m1)
          else do { (q, m2) \<leftarrow> map_gva H A (u_map u) m1 0x100000000 np 0x100000000; Some (if q \<noteq> 0 then -1 else 0, e, m2) })"
    unfolding Let_def
    by (rule load_mach_obj_eq [OF F bs opens mmap fo [unfolded c] rd refl refl]) (auto simp: Let_def)
  show thesis
    using ret unfolding eq
    by (auto simp: Let_def split: Option.bind_splits prod.splits if_splits intro!: that [OF rd _ map])
qed

text \<open>The calls of the reader and of the system leave guest memory and tables alone.\<close>

lemma os_calls_memory:
  "gbyte (m\<lparr>os := s, calls := c\<rparr>) = gbyte m" "mem_inv (m\<lparr>os := s, calls := c\<rparr>) \<longleftrightarrow> mem_inv m"
  "pt_inv (m\<lparr>os := s, calls := c\<rparr>) \<longleftrightarrow> pt_inv m" "tbyte (m\<lparr>os := s, calls := c\<rparr>) = tbyte m"
  for m :: "('w, 'o, 'z) process_scheme"
proof -
  let ?m = "m\<lparr>os := s, calls := c\<rparr>"
  show b: "gbyte ?m = gbyte m"
    by (simp add: gbyte_def gpa_to_hva_def fun_eq_iff)
  show "mem_inv ?m \<longleftrightarrow> mem_inv m"
    by (simp add: mem_inv_def backed_def)
  have r: "pml4_gpa ?m = pml4_gpa m" "pml4 ?m = pml4 m"
    by simp_all
  show "pt_inv ?m \<longleftrightarrow> pt_inv m" "tbyte ?m = tbyte m"
    by (rule same_bytes_tables [OF b r])+
qed

end
