(* ===== verification/LoaderProperties.thy ===== *)
theory LoaderProperties
  imports LoaderRuns DemoProcess MachoProperties
begin

text \<open>
  The properties of the loader, with instances at a process with two pages of guest memory
  and a system with one file.
\<close>

section \<open>load_raw\<close>


text \<open>C39: \<open>mmap\<close> reports failure with \<open>MAP_FAILED\<close>, the code looks for \<open>NULL\<close>: when the
  mapping fails the code goes on to read from address -1, unless the guest has no memory at
  \<open>gpa\<close> or the file is empty.\<close>

theorem load_raw_mmap_failure:
  assumes "fo_open F (host m) p = (f, h1)" "f \<noteq> -1" "fo_stat F h1 p u = (r, n, h2)" "0 \<le> sint r"
    and "fo_mmap F h2 n False f = (-1, h3)" "snd h3 (-1) = None" "n \<noteq> 0" "gpa_to_hva m gpa \<noteq> 0"
  shows "load_raw F u m (Some p) gpa = None"
proof -
  obtain k where k: "unat n = Suc k"
    using assms(7) by (metis not0_implies_Suc unat_eq_zero)
  have "gpa_to_hva (set_host h m) = gpa_to_hva m" for h
    by (simp add: gpa_to_hva_def fun_eq_iff)
  then have "vm_mem_copy (set_host h3 (set_host h2 (set_host h1 m))) gpa (-1) n = None"
    using assms(6,8) by (simp add: vm_mem_copy_def k gpa_to_hva_def Let_def)
  with assms(1-5) show ?thesis
    by (simp add: load_raw_def)
qed

text \<open>A system with one file, which every path names; descriptor 3 is open.\<close>

definition demo_files :: "u8 list \<Rightarrow> u8 list file_ops" where
  "demo_files bs = \<lparr>
     fo_open = (\<lambda>h p. (3, h)),
     fo_stat = (\<lambda>h p old. (0, of_nat (length bs), h)),
     fo_mmap = (\<lambda>h n w f.
       if unat n = length bs \<and> length bs \<le> 0x1000
         \<and> (\<forall>i < whole_pages (length bs). snd h (0x4000000000000000 + of_nat i) = None)
       then (0x4000000000000000, fst h, \<lambda>a. if in_block 0x4000000000000000 (whole_pages (length bs)) a
         then Some (if unat (a - 0x4000000000000000) < length bs then bs ! unat (a - 0x4000000000000000) else 0) else snd h a)
       else (-1, h)),
     fo_munmap = (\<lambda>h p n. (fst h, \<lambda>a. if in_block p (whole_pages (unat n)) a then None else snd h a)),
     fo_close = (\<lambda>h f. h),
     fo_fopen = (\<lambda>h p. (Some bs, h)),
     fo_fclose = (\<lambda>h. h)\<rparr>"

lemma whole_pages_le: "n \<le> 0x1000 \<Longrightarrow> whole_pages n \<le> 0x1000"
  unfolding whole_pages_def by simp

lemma demo_files_ok:
  assumes "length bs < 2 ^ 63"
  shows "files_ok (demo_files bs) (\<lambda>p. Some bs) (\<lambda>s f. Some bs)"
proof -
  have fresh: "h a = None" if "\<forall>i < whole_pages (length bs). h (0x4000000000000000 + of_nat i) = None"
    "in_block 0x4000000000000000 (whole_pages (length bs)) a" "length bs \<le> 0x1000" for h :: "u64 \<rightharpoonup> u8" and a
    using that whole_pages_le [OF that(3)] by (auto simp: in_block_offset)
  have "mapped 0x4000000000000000 (unat n) bs (snd h) (snd h')"
    if "fo_mmap (demo_files bs) h n w f = (0x4000000000000000, h')" "unat n = length bs" for h h' n w f
    using that fresh [of "snd h"] whole_pages_le [of "length bs"]
    by (auto simp: demo_files_def mapped_def page_aligned_def split: if_splits)
  then show ?thesis
    using assms unfolding files_ok_def by (auto simp: demo_files_def split: if_splits)
qed

lemma demo_map_high: "i < 0x1000 \<Longrightarrow> demo_high (0x4000000000000000 + of_nat i)"
proof -
  assume "i < 0x1000"
  then have "unat (0x4000000000000000 + of_nat i :: u64) = 0x4000000000000000 + i"
    by (subst unat_add_of_nat) simp_all
  then show ?thesis
    by (simp add: demo_high_def)
qed

lemma demo_mmap:
  assumes "\<forall>a. demo_high a \<longrightarrow> snd h a = None" "length bs \<le> 0x1000"
  shows "fst (fo_mmap (demo_files bs) h (of_nat (length bs)) w f) = 0x4000000000000000"
proof -
  have "unat (of_nat (length bs) :: u64) = length bs"
    using assms(2) by (intro unat_of_nat_small) simp
  then show ?thesis
    using assms demo_map_high whole_pages_le [OF assms(2)] by (simp add: demo_files_def)
qed

lemma root_machine_free: "demo_high a \<Longrightarrow> heap root_machine a = None"
  by (simp add: root_machine_def demo_high_def in_block_iff)


theorem load_raw_mmap_failure_witness:
  "load_raw ((demo_files [1])\<lparr>fo_mmap := \<lambda>h n w f. (-1, h)\<rparr>) 0 (demo_process [] [] []) (Some ''kernel'') 0 = None"
proof -
  have "\<not> in_block 0x100000 0x2000 (-1 :: u64)"
    by (simp add: in_block_def)
  then have "snd (host (demo_process [] [] [])) (-1) = None"
    by (simp add: root_machine_def)
  then show ?thesis
    by (intro load_raw_mmap_failure [where f = 3 and r = 0 and n = 1])
      (auto simp: demo_files_def demo_process_memory root_machine_hva)
qed

section \<open>load_mach_obj\<close>


lemma demo_read:
  "\<exists>s. read_entry_point_cmd apple_headers (malloc_null demo_host) 0
      \<lparr>s_bytes = demo_header 1 @ demo_main, s_pos = 0, s_callocs = k, s_live = 0, s_log = []\<rparr> []
    = Some (0, demo_main, s) \<and> s_callocs s = k + 3"
proof -
  have magic: "overlay bytes32 word32 0 (take 4 (demo_header 1)) = 0xfeedfacf"
    using codec32.overlay_full [of "take 4 (demo_header 1)" 0] demo_header_facts(1) [of 1 "[]"]
    by (simp add: demo_header_facts)
  have buf: "take 32 (demo_header 1) = demo_header 1" "drop 32 (demo_header 1) = []"
    "take 24 demo_main = demo_main"
    by (simp_all add: demo_header_facts demo_commands_facts)
  have seg: "LC_SEGMENT apple_headers = 1" "LC_SEGMENT_64 apple_headers = 0x19"
    by (simp_all add: apple_headers_def)
  show ?thesis
    by (simp add: read_entry_point_cmd_def read_magic_def fread_def fseek_set_def magic is_fat_def
        is_magic_64_def should_swap_bytes_def read_mach_header_def load_bytes_def buf demo_header_facts
        int_add_def INT_MAX_def free_buffer_def dlog_def read_segment_commands_def Let_def
        read_segment_loop.simps(2) demo_commands_facts seg)
qed

definition demo_load_locals :: load_locals where
  "demo_load_locals = \<lparr>u_magic = 0, u_entry_point = [], u_size = 0, u_map = \<lambda>i v. 0\<rparr>"

lemma length_demo_file [simp]: "length (demo_header n) = 32" "length demo_main = 24"
  by (simp_all add: demo_header_facts demo_commands_facts)

lemma demo_map_gpa:
  assumes "insert_region (mem_regions m) \<lparr>r_gpa = g, r_npages = n, r_hva = p\<rparr> = Some rs"
    and "page_aligned g" "0 < n"
  shows "map_gpa demo_hv demo_host m g n p = (0, m\<lparr>calls := Suc (calls m), mem_regions := rs\<rparr>)"
proof -
  have "m\<lparr>world := world m\<rparr> = m"
    by simp
  with assms show ?thesis
    by (simp add: map_gpa_def page_mask_id Let_def word_less_1)
qed

text \<open>What the concrete host needs to map a file of at most a page.\<close>

definition demo_ready :: "(demo_world, 'z) machine_scheme \<Rightarrow> bool" where
  "demo_ready m \<longleftrightarrow> mem_inv m \<and> demo_fresh m \<and> (\<forall>a. demo_high a \<longrightarrow> heap m a = None) \<and> calls m \<le> 200
     \<and> phys_top (mem_regions m) \<le> 65 * 4096"

definition demo_image :: "u8 list" where
  "demo_image = demo_header 1 @ demo_main"

lemma length_demo_image [simp]: "length demo_image = 56"
  by (simp add: demo_image_def)

lemma demo_load_mapping:
  fixes m :: "(demo_world, u8 list, 'z) process_scheme"
  assumes m: "demo_ready m" and c: "c \<le> 203"
    and h: "fo_mmap (demo_files demo_image) (host m) 56 True 3 = (p, h)"
  obtains m1 where "p = 0x4000000000000000"
    "map_gpa demo_hv demo_host (set_host h (m\<lparr>calls := c\<rparr>)) 0x100000000 1 p = (0, m1)"
    "mem_inv m1" "calls m1 = Suc c" "failures m1 = failures m" "table_room m1 1"
    "\<And>a. heap m1 a \<noteq> None \<Longrightarrow> heap m a \<noteq> None \<or> demo_high a"
proof -
  let ?m0 = "m\<lparr>calls := c\<rparr>" and ?new = "\<lparr>r_gpa = 0x100000000, r_npages = 1, r_hva = p\<rparr>"
  have inv0: "mem_inv ?m0" and top: "phys_top (mem_regions ?m0) \<le> 65 * 4096"
    and free: "\<forall>a. demo_high a \<longrightarrow> snd (host m) a = None"
    using m by (simp_all add: demo_ready_def mem_inv_def backed_def)
  have whole: "whole_pages 56 = 4096"
    by (simp add: whole_pages_def)
  have p: "p = 0x4000000000000000"
    using demo_mmap [OF free, of demo_image True 3] h by simp
  have F: "files_ok (demo_files demo_image) (\<lambda>p. Some demo_image) (\<lambda>s f. Some demo_image)"
    by (rule demo_files_ok) simp
  have map: "mapped p (length demo_image) demo_image (heap ?m0) (snd h)"
    using files_mmap_bytes [OF F h] p by simp
  have ok: "region_ok ?new"
    by (simp add: p region_ok_def page_aligned_def r_hi_def r_lo_def r_size_def h_lo_def)
  have "insert_region (mem_regions ?m0) ?new \<noteq> None"
  proof -
    have "\<not> overlaps q ?new" if "q \<in> set (mem_regions ?m0)" for q
      using r_hi_le_phys_top [OF mem_inv_wf [OF inv0] that] top
      by (simp add: overlaps_def r_hi_def [of ?new] r_lo_def [of ?new] r_size_def [of ?new])
    then show ?thesis
      using insert_region_None_iff [OF mem_inv_wf [OF inv0] ok] by blast
  qed
  then obtain rs where rs: "insert_region (mem_regions (set_host h ?m0)) ?new = Some rs"
    by auto
  have al: "page_aligned 0x100000000" and np: "(0 :: u64) < 1"
    by (simp_all add: page_aligned_def)
  note r1 = demo_map_gpa [OF rs al np]
  have pg: "unat (1 :: u64) * 4096 = whole_pages (length demo_image)"
    and up: "unat (0x100000000 :: u64) + whole_pages (length demo_image) < 2 ^ 64"
    by (simp_all add: whole)
  note g = map_gpa_file [OF inv0 map pg al up r1]
  show thesis
  proof (rule that [OF p r1 g(1)])
    show "table_room (set_host h ?m0\<lparr>calls := Suc (calls (set_host h ?m0)), mem_regions := rs\<rparr>) 1"
      using g(5) top by (simp add: table_room_def whole)
    show "heap m a \<noteq> None \<or> demo_high a"
      if "heap (set_host h ?m0\<lparr>calls := Suc (calls (set_host h ?m0)), mem_regions := rs\<rparr>) a \<noteq> None" for a
    proof (cases "in_block p (whole_pages (length demo_image)) a")
      case True
      then show ?thesis
        by (simp add: whole p in_block_iff demo_high_def)
    next
      case False
      with that mappedD(6) [OF map False] show ?thesis by simp
    qed
  qed (use g(8) in \<open>simp_all add: set_host_def\<close>)
qed

lemma demo_load_from:
  fixes m :: "(demo_world, u8 list, 'z) process_scheme"
  assumes m: "demo_ready m"
  shows "\<exists>m'. load_mach_obj (demo_files demo_image) apple_headers demo_hv demo_host demo_load_locals
      m (Some path) e0 = Some (0, 0x100000f50, m') \<and> failures m' = failures m"
proof -
  obtain s where s: "read_entry_point_cmd apple_headers (malloc_null demo_host) 0
      \<lparr>s_bytes = demo_image, s_pos = 0, s_callocs = calls m, s_live = 0, s_log = []\<rparr> [] = Some (0, demo_main, s)"
    "s_callocs s = calls m + 3"
    using demo_read unfolding demo_image_def by blast
  obtain p h where h: "fo_mmap (demo_files demo_image) (host m) 56 True 3 = (p, h)"
    by (metis surj_pair)
  have c: "s_callocs s \<le> 203"
    using s(2) m by (simp add: demo_ready_def)
  obtain m1 where p: "p = 0x4000000000000000"
    and m1: "map_gpa demo_hv demo_host (set_host h (m\<lparr>calls := s_callocs s\<rparr>)) 0x100000000 1 p = (0, m1)"
    and inv1: "mem_inv m1" and calls1: "calls m1 = Suc (s_callocs s)" and f1: "failures m1 = failures m"
    and room: "table_room m1 1" and heap1: "\<And>a. heap m1 a \<noteq> None \<Longrightarrow> heap m a \<noteq> None \<or> demo_high a"
    using demo_load_mapping [OF m c h] by metis
  have "unat a < Suc (calls m1) * 0x100000 \<or> demo_high a" if "heap m1 a \<noteq> None" for a
  proof (cases "demo_high a")
    case False
    with heap1 [OF that] have "unat a < Suc (calls m) * 0x100000"
      using m unfolding demo_ready_def demo_fresh_def by blast
    then show ?thesis
      by (simp add: calls1 s(2))
  qed simp
  then have fresh: "demo_fresh m1"
    unfolding demo_fresh_def by blast
  have "calls m1 + 6 * unat (1 :: u64) + 2 < 2 ^ 40"
    using c by (simp add: calls1)
  from demo_map_gva [OF inv1 fresh this room, of "u_map demo_load_locals" "0x100000000" "0x100000000"]
  obtain m' where m': "map_gva demo_hv demo_host (u_map demo_load_locals) m1 0x100000000 1 0x100000000 = Some (0, m')"
    "failures m' = failures m1"
    by (auto simp: demo_step_def)
  have ep: "ep_entryoff apple_headers demo_main = 0xf50"
    by (simp add: apple_headers_def demo_main_def codec64.dec_enc)
  have pages: "file_pages 56 = 1"
    by (simp add: file_pages_def signed_divide_int_def signed_modulo_int_def)
  have "set_host (host m) m = m"
    "set_host (host (m\<lparr>calls := s_callocs s\<rparr>)) (m\<lparr>calls := s_callocs s\<rparr>) = m\<lparr>calls := s_callocs s\<rparr>"
    by (simp_all add: set_host_def host_def)
  moreover have "host (m\<lparr>calls := s_callocs s\<rparr>) = host m"
    by (simp add: host_def)
  moreover have "fo_fopen (demo_files demo_image) h p = (Some demo_image, h)" "fo_fclose (demo_files demo_image) h = h"
    "fo_open (demo_files demo_image) h p = (3, h)" "fo_stat (demo_files demo_image) h p old = (0, 56, h)" for h p old
    by (simp_all add: demo_files_def)
  moreover have "u_magic demo_load_locals = 0" "u_entry_point demo_load_locals = []"
    by (simp_all add: demo_load_locals_def)
  ultimately have "load_mach_obj (demo_files demo_image) apple_headers demo_hv demo_host demo_load_locals
      m (Some path) e0 = Some (0, 0x100000f50, m')"
    using s(1) m1 m'(1) h p
    by (simp add: load_mach_obj_def Let_def ep pages
        cong del: if_weak_cong prod.case_cong_weak option.case_cong_weak)
  with m'(2) f1 show ?thesis
    by auto
qed

lemma demo_process_ready: "demo_ready (demo_process rs fs es)"
  using demo_process_memory(1) [of rs fs es] root_machine_free
  by (auto simp: demo_ready_def demo_fresh_def demo_process_def process_of_def root_machine_def machine.defs
      phys_top_def r_hi_def r_lo_def r_size_def in_block_iff split: if_splits)


end
