(* ===== verification/Logging.thy ===== *)
theory Logging
  imports Prelude
begin

text \<open>
  \<open>src/src/logging.c\<close> and the macro \<open>LOG\<close> of \<open>logging.h\<close>: a threshold and a stream,
  which is \<open>NULL\<close> until \<open>init_logging\<close> sets it. Writing to a null stream is undefined.
  The other theories leave the log out: no definition of the program reads it.
\<close>

datatype LOG_LEVEL = DEBUG | INFO | WARN | ERROR | SILENT

text \<open>The enumeration's order, in which the macro compares levels.\<close>

fun level_number :: "LOG_LEVEL \<Rightarrow> nat" where
  "level_number DEBUG = 0"
| "level_number INFO = 1"
| "level_number WARN = 2"
| "level_number ERROR = 3"
| "level_number SILENT = 4"

instantiation LOG_LEVEL :: linorder
begin

definition less_eq_LOG_LEVEL :: "LOG_LEVEL \<Rightarrow> LOG_LEVEL \<Rightarrow> bool" where
  "less_eq_LOG_LEVEL a b \<longleftrightarrow> level_number a \<le> level_number b"

definition less_LOG_LEVEL :: "LOG_LEVEL \<Rightarrow> LOG_LEVEL \<Rightarrow> bool" where
  "less_LOG_LEVEL a b \<longleftrightarrow> level_number a < level_number b"

instance
proof
  fix a b :: LOG_LEVEL
  assume "a \<le> b" "b \<le> a"
  then show "a = b"
    by (cases a; cases b) (simp_all add: less_eq_LOG_LEVEL_def)
qed (auto simp: less_eq_LOG_LEVEL_def less_LOG_LEVEL_def)

end

text \<open>The globals, and the lines written to the stream so far.\<close>

record logging =
  log_level :: LOG_LEVEL
  log_fildes :: "nat option"
  log_lines :: "(nat \<times> LOG_LEVEL \<times> string) list"

definition log_start :: logging where
  "log_start = \<lparr>log_level = DEBUG, log_fildes = None, log_lines = []\<rparr>"

definition init_logging :: "LOG_LEVEL \<Rightarrow> nat option \<Rightarrow> logging \<Rightarrow> logging" where
  "init_logging level fildes s = s\<lparr>log_level := level, log_fildes := fildes\<rparr>"

definition LOG :: "LOG_LEVEL \<Rightarrow> string \<Rightarrow> logging \<Rightarrow> logging option" where
  "LOG level msg s =
     (if log_level s \<le> level
      then (case log_fildes s of None \<Rightarrow> None
            | Some f \<Rightarrow> Some (s\<lparr>log_lines := log_lines s @ [(f, level, msg)]\<rparr>))
      else Some s)"

fun log_all :: "(LOG_LEVEL \<times> string) list \<Rightarrow> logging \<Rightarrow> logging option" where
  "log_all [] s = Some s"
| "log_all ((l, msg) # ms) s = (case LOG l msg s of None \<Rightarrow> None | Some s' \<Rightarrow> log_all ms s')"


end
