(* ===== verification/Options.thy ===== *)
theory Options
  imports Plugin Logging
begin

text \<open>
  The command line of \<open>src/src/hvexec.c\<close>: \<open>getopt\<close> of the C library as the program's
  target has it (options end at the first other word or at \<open>--\<close>), and the loop of
  \<open>main\<close> over its results. Words are strings without NUL; opening the log file is the
  system's.
\<close>

section \<open>getopt\<close>

text \<open>Whether \<open>c\<close> is an option of the string and takes an argument.\<close>

fun option_kind :: "string \<Rightarrow> char \<Rightarrow> bool option" where
  "option_kind [] c = None"
| "option_kind (x # xs) c =
     (if x = c \<and> c \<noteq> CHR '':'' then Some (xs \<noteq> [] \<and> hd xs = CHR '':'') else option_kind xs c)"

text \<open>
  The state between calls is the rest of the word being read and the words from
  \<open>argv[optind]\<close> on. A result is the option and \<open>optarg\<close>; \<open>?\<close> is an error.
\<close>

definition getopt_char :: "string \<Rightarrow> char \<Rightarrow> string \<Rightarrow> string list \<Rightarrow>
    (char \<times> string option) \<times> string \<times> string list" where
  "getopt_char optstring c place args =
     (case option_kind optstring c of
        None \<Rightarrow> ((CHR ''?'', None), place, if place = [] then tl args else args)
      | Some False \<Rightarrow> ((c, None), place, if place = [] then tl args else args)
      | Some True \<Rightarrow>
          if place \<noteq> [] then ((c, Some place), [], tl args)
          else (case tl args of
                  [] \<Rightarrow> ((CHR ''?'', None), [], [])
                | optarg # rest \<Rightarrow> ((c, Some optarg), [], rest)))"

definition getopt :: "string \<Rightarrow> string \<Rightarrow> string list \<Rightarrow>
    ((char \<times> string option) \<times> string) option \<times> string list" where
  "getopt optstring place args =
     (let result = (\<lambda>(r, place, args). (Some (r, place), args))
      in case place of
           c # place \<Rightarrow> result (getopt_char optstring c place args)
         | [] \<Rightarrow> (case args of
             [] \<Rightarrow> (None, args)
           | word # rest \<Rightarrow>
               (case word of
                  [] \<Rightarrow> (None, args)
                | dash # cs \<Rightarrow>
                    if dash \<noteq> CHR ''-'' \<or> cs = [] then (None, args)
                    else if cs = ''-'' then (None, rest)
                    else result (getopt_char optstring (hd cs) (tl cs) args))))"

section \<open>The options of the program\<close>

record options =
  log_level_opt :: LOG_LEVEL
  log_output :: nat
  kernel_path :: "string option"
  plugin_path :: "string option"

text \<open>\<open>stdout\<close> is stream 1; other streams are the system's.\<close>

definition default_options :: options where
  "default_options = \<lparr>log_level_opt = DEBUG, log_output = 1, kernel_path = None, plugin_path = None\<rparr>"

definition level_of :: "string \<Rightarrow> LOG_LEVEL option" where
  "level_of s =
     (if s = ''DEBUG'' then Some DEBUG
      else if s = ''INFO'' then Some INFO
      else if s = ''WARN'' then Some WARN
      else if s = ''ERROR'' then Some ERROR
      else if s = ''SILENT'' then Some SILENT
      else None)"

text \<open>
  One turn of the loop: \<open>None\<close> for the early \<open>return 1\<close>. \<open>fopen_log\<close> opens a file for
  appending; \<open>None\<close> is \<open>NULL\<close>.
\<close>

definition handle_option :: "('o host \<Rightarrow> string \<Rightarrow> nat option \<times> 'o host) \<Rightarrow> char \<Rightarrow> string option \<Rightarrow>
    options \<Rightarrow> ('w, 'o, 'z) process_scheme \<Rightarrow> options option \<times> ('w, 'o, 'z) process_scheme" where
  "handle_option fopen_log optf optarg opts m =
     (if optf = CHR ''i'' then (Some opts, m\<lparr>syscall_interactive := True\<rparr>)
      else if optf = CHR ''l'' then
        (case level_of (the optarg) of
           None \<Rightarrow> (None, m)
         | Some l \<Rightarrow> (Some (opts\<lparr>log_level_opt := l\<rparr>), m))
      else if optf = CHR ''o'' then
        (let (f, h) = fopen_log (host m) (the optarg); m = set_host h m
         in case f of None \<Rightarrow> (None, m) | Some f \<Rightarrow> (Some (opts\<lparr>log_output := f\<rparr>), m))
      else if optf = CHR ''k'' then (Some (opts\<lparr>kernel_path := optarg\<rparr>), m)
      else if optf = CHR ''s'' then (Some (opts\<lparr>plugin_path := optarg\<rparr>), m)
      else (None, m))"

text \<open>The characters still to be read: each call of \<open>getopt\<close> takes at least one.\<close>

definition unread :: "string \<Rightarrow> string list \<Rightarrow> nat" where
  "unread place args =
     (if place = [] then sum_list (map (\<lambda>w. Suc (length w)) args)
      else length place + sum_list (map (\<lambda>w. Suc (length w)) (tl args)))"

lemma getopt_char_unread:
  assumes "getopt_char ostr c place args = (r, place', args')"
  shows "unread place' args' \<le> length place + sum_list (map (\<lambda>w. Suc (length w)) (tl args))"
proof -
  obtain as where as: "tl args = as" by blast
  show ?thesis
    using assms as by (cases as)
      (auto simp: getopt_char_def unread_def dest: sym [of "_ # _" "tl args"]
        split: option.splits bool.splits if_splits)
qed

lemma getopt_unread:
  assumes "getopt ostr place args = (Some (r, place'), args')"
  shows "unread place' args' < unread place args"
proof -
  obtain c cs where g: "getopt_char ostr c cs args = (r, place', args')"
    and le: "length cs + sum_list (map (\<lambda>w. Suc (length w)) (tl args)) < unread place args"
  proof (cases place)
    case (Cons c cs)
    obtain q where "getopt_char ostr c cs args = q" by blast
    with Cons assms that [of c cs] show thesis
      by (cases q) (simp add: getopt_def unread_def)
  next
    case Nil
    then obtain word rest where args: "args = word # rest"
      using assms by (auto simp: getopt_def split: list.splits)
    with Nil assms obtain dash cs where w: "word = dash # cs" "cs \<noteq> []"
      by (auto simp: getopt_def split: list.splits if_splits)
    with Nil args assms have "getopt_char ostr (hd cs) (tl cs) args = (r, place', args')"
      by (auto simp: getopt_def split: if_splits prod.splits)
    moreover have "length (tl cs) + sum_list (map (\<lambda>w. Suc (length w)) (tl args)) < unread place args"
      using Nil args w by (simp add: unread_def)
    ultimately show thesis by (rule that)
  qed
  show ?thesis
    using getopt_char_unread [OF g] le by simp
qed

function parse_options :: "('o host \<Rightarrow> string \<Rightarrow> nat option \<times> 'o host) \<Rightarrow> string \<Rightarrow> string list \<Rightarrow>
    options \<Rightarrow> ('w, 'o, 'z) process_scheme \<Rightarrow>
    (options \<times> string list) option \<times> ('w, 'o, 'z) process_scheme" where
  "parse_options fopen_log place args opts m =
     (case getopt ''il:o:k:s:'' place args of
        (None, args) \<Rightarrow> (Some (opts, args), m)
      | (Some ((optf, optarg), place), args) \<Rightarrow>
          (case handle_option fopen_log optf optarg opts m of
             (None, m) \<Rightarrow> (None, m)
           | (Some opts, m) \<Rightarrow> parse_options fopen_log place args opts m))"
  by pat_completeness auto
termination
  by (relation "measure (\<lambda>(_, place, args, _). unread place args)") (auto intro!: getopt_unread [OF sym])

declare parse_options.simps [simp del]

section \<open>Writing options\<close>

text \<open>A list of options, as a user may write them, one or two words each.\<close>

datatype opt = Interactive | Level LOG_LEVEL | Output string | Kernel string | Plug string

fun level_name :: "LOG_LEVEL \<Rightarrow> string" where
  "level_name DEBUG = ''DEBUG''"
| "level_name INFO = ''INFO''"
| "level_name WARN = ''WARN''"
| "level_name ERROR = ''ERROR''"
| "level_name SILENT = ''SILENT''"

fun opt_words :: "opt \<Rightarrow> string list" where
  "opt_words Interactive = [''-i'']"
| "opt_words (Level l) = [''-l'', level_name l]"
| "opt_words (Output f) = [''-o'', f]"
| "opt_words (Kernel f) = [''-k'', f]"
| "opt_words (Plug f) = [''-s'', f]"

text \<open>What each means.\<close>

fun opt_effect :: "('o host \<Rightarrow> string \<Rightarrow> nat option \<times> 'o host) \<Rightarrow> opt list \<Rightarrow> options \<Rightarrow>
    ('w, 'o, 'z) process_scheme \<Rightarrow> options option \<times> ('w, 'o, 'z) process_scheme" where
  "opt_effect L [] o1 m = (Some o1, m)"
| "opt_effect L (Interactive # xs) o1 m = opt_effect L xs o1 (m\<lparr>syscall_interactive := True\<rparr>)"
| "opt_effect L (Level l # xs) o1 m = opt_effect L xs (o1\<lparr>log_level_opt := l\<rparr>) m"
| "opt_effect L (Output f # xs) o1 m =
     (case L (host m) f of (None, h) \<Rightarrow> (None, set_host h m)
      | (Some n, h) \<Rightarrow> opt_effect L xs (o1\<lparr>log_output := n\<rparr>) (set_host h m))"
| "opt_effect L (Kernel f # xs) o1 m = opt_effect L xs (o1\<lparr>kernel_path := Some f\<rparr>) m"
| "opt_effect L (Plug f # xs) o1 m = opt_effect L xs (o1\<lparr>plugin_path := Some f\<rparr>) m"

lemma level_of_name [simp]: "level_of (level_name l) = Some l"
  by (cases l) (simp_all add: level_of_def)

text \<open>Words that are not options: none, or first one that does not start with a dash.\<close>

definition no_option :: "string list \<Rightarrow> bool" where
  "no_option args \<longleftrightarrow> args = [] \<or> hd args = [] \<or> hd (hd args) \<noteq> CHR ''-''"

lemma getopt_no_option: "no_option args \<Longrightarrow> getopt ostr [] args = (None, args)"
  by (auto simp: getopt_def no_option_def split: list.splits)

lemma parse_options_words:
  assumes "no_option args"
  shows "parse_options L [] (concat (map opt_words xs) @ args) o1 m =
    (case opt_effect L xs o1 m of (None, m') \<Rightarrow> (None, m') | (Some o2, m') \<Rightarrow> (Some (o2, args), m'))"
proof (induction xs arbitrary: o1 m)
  case Nil
  then show ?case
    using assms by (subst parse_options.simps) (simp add: getopt_no_option)
next
  case (Cons x xs)
  show ?case
  proof (cases x)
    case (Output f)
    obtain n h where "L (host m) f = (n, h)" by (metis surj_pair)
    with Output show ?thesis
      by (subst parse_options.simps) (cases n; simp add: getopt_def getopt_char_def handle_option_def Cons)
  qed (subst parse_options.simps, simp add: getopt_def getopt_char_def handle_option_def Cons)+
qed

end
