(* ===== verification/Hvexec.thy ===== *)
theory Hvexec
  imports Options Loader Vcpu
begin

text \<open>
  \<open>main\<close> of \<open>src/src/hvexec.c\<close>: the machine is created and set up, the kernel, the plugin
  and the application are loaded, the application's arguments are written to guest memory,
  three words are pushed for the kernel, and the guest runs until it stops; on every way
  out what was created is destroyed. Each stage is one definition; a stage that jumps to a
  label of the clean-up says so in its result.
\<close>

section \<open>State and parameters\<close>

record ('w, 'o) program = "('w, 'o) process" +
  log_state :: logging

text \<open>What the program calls outside \<open>src/\<close>, and the uninitialised locals it meets.\<close>

record ('w, 'o) outside =
  hv :: "'w hv_ops"
  alloc :: host_ops
  osys :: "'o os_ops"
  files :: "'o file_ops"
  dl :: "'o dl_ops"
  headers :: macho_headers
  fopen_log :: "'o host \<Rightarrow> string \<Rightarrow> nat option \<times> 'o host"

record main_locals =
  u_init :: "nat \<Rightarrow> local_var \<Rightarrow> u64"
  u_raw :: u64
  u_load :: load_locals
  u_entry_gva :: u64
  u_run :: "nat \<Rightarrow> locals"

section \<open>Clean-up\<close>

text \<open>The labels \<open>VM_DESTROY\<close>, \<open>VM_MEM_DESTROY\<close> and \<open>VCPU_DESTROY\<close>.\<close>

definition vm_destroy :: "'w hv_ops \<Rightarrow> int \<Rightarrow> ('w, 'z) machine_scheme \<Rightarrow> int \<times> ('w, 'z) machine_scheme" where
  "vm_destroy H ret_val m =
     (let (err, w) = hv_vm_destroy H (world m) in (if err \<noteq> 0 then 1 else ret_val, m\<lparr>world := w\<rparr>))"

definition mem_destroy :: "'w hv_ops \<Rightarrow> int \<Rightarrow> ('w, 'z) machine_scheme \<Rightarrow> int \<times> ('w, 'z) machine_scheme" where
  "mem_destroy H ret_val m = vm_destroy H ret_val (vm_mem_destroy m)"

definition vcpu_destroy :: "'w hv_ops \<Rightarrow> int \<Rightarrow> ('w, 'z) machine_scheme \<Rightarrow> int \<times> ('w, 'z) machine_scheme" where
  "vcpu_destroy H ret_val m =
     (let (err, w) = hv_vcpu_destroy H (world m)
      in mem_destroy H (if err \<noteq> 0 then 1 else ret_val) (m\<lparr>world := w\<rparr>))"

section \<open>The stages\<close>

text \<open>
  Creating the machine: \<open>Inl\<close> with the end of the program, or \<open>Inr\<close> with the state in
  which to go on. A failed \<open>hv_vcpu_create\<close> destroys a virtual CPU that does not exist.
\<close>

definition main_create :: "'w hv_ops \<Rightarrow> host_ops \<Rightarrow> (nat \<Rightarrow> local_var \<Rightarrow> u64) \<Rightarrow> ('w, 'z) machine_scheme \<Rightarrow>
    ((int \<times> ('w, 'z) machine_scheme) + ('w, 'z) machine_scheme) option" where
  "main_create H A u m =
     (let (err, w) = hv_vm_create H (world m); m = m\<lparr>world := w\<rparr>
      in if err \<noteq> 0 then Some (Inl (vm_destroy H 1 m))
         else do {
           (r, m) \<leftarrow> vm_mem_init H A u m (ucast CONF_INIT_NUM_PAGES);
           if r \<noteq> 0 then Some (Inl (mem_destroy H 1 m))
           else let (err, w) = hv_vcpu_create H (world m); m = m\<lparr>world := w\<rparr>
             in if err \<noteq> 0 then Some (Inl (vcpu_destroy H 1 m))
                else do {
                  (r, m) \<leftarrow> vcpu_setup_ia32 H m;
                  Some (if r \<noteq> 0 then Inl (vcpu_destroy H 1 m) else Inr m)
                }
         })"

text \<open>
  Loading: \<open>None\<close> in place of an entry point is the jump to \<open>VCPU_DESTROY\<close>, with the
  result of \<open>main\<close> still 0.
\<close>

definition main_load :: "('w, 'o) outside \<Rightarrow> main_locals \<Rightarrow> string \<Rightarrow> string option \<Rightarrow> string \<Rightarrow>
    ('w, 'o, 'z) process_scheme \<Rightarrow> (u64 option \<times> ('w, 'o, 'z) process_scheme) option" where
  "main_load X u k_path plugin app_path m = do {
     (r, m) \<leftarrow> load_raw (files X) (u_raw u) m (Some k_path) CONF_START_ADDR;
     if r \<noteq> 0 then Some (None, m)
     else let (r, m) = (case plugin of None \<Rightarrow> (0, m) | Some p \<Rightarrow> load_plugin (dl X) m (Some p))
       in if r \<noteq> 0 then Some (None, m)
          else do {
            (r, entry_gva, m) \<leftarrow> load_mach_obj (files X) (headers X) (hv X) (alloc X) (u_load u) m
              (Some app_path) (u_entry_gva u);
            Some (if r \<noteq> 0 then None else Some entry_gva, m)
          }
   }"

text \<open>A string of C with its terminator.\<close>

definition c_string :: "string \<Rightarrow> u8 list" where
  "c_string s = map of_char s @ [0]"

text \<open>The loop that writes the arguments; false is the jump to \<open>VCPU_DESTROY\<close>.\<close>

fun setup_args :: "('w, 'z) machine_scheme \<Rightarrow> u64 \<Rightarrow> u64 \<Rightarrow> string list \<Rightarrow>
    (bool \<times> ('w, 'z) machine_scheme) option" where
  "setup_args m argv_addr args_addr [] = Some (True, m)"
| "setup_args m argv_addr args_addr (str # argv) = do {
     (n, m) \<leftarrow> vm_mem_write m argv_addr (bytes64 args_addr);
     if n \<noteq> 8 then Some (False, m)
     else do {
       (n, m) \<leftarrow> vm_mem_write m args_addr (c_string str);
       if n \<noteq> length (c_string str) then Some (False, m)
       else setup_args m (argv_addr + 8) (args_addr + of_nat (length (c_string str))) argv
     }
   }"

text \<open>The words for the kernel; the results of the pushes are not checked.\<close>

definition push_start :: "'w hv_ops \<Rightarrow> nat \<Rightarrow> u64 \<Rightarrow> ('w, 'z) machine_scheme \<Rightarrow>
    ('w, 'z) machine_scheme option" where
  "push_start H argc entry_gva m = do {
     (r, m) \<leftarrow> push64 H m CONF_ARGV_ADDR;
     (r, m) \<leftarrow> push64 H m (of_nat argc);
     (r, m) \<leftarrow> push64 H m entry_gva;
     Some m
   }"

section \<open>main\<close>

text \<open>
  The part after the options: \<open>argv\<close> holds the words from the target executable on. The
  result is the exit code with the final state, \<open>Running\<close> when \<open>fuel\<close> exits of the guest
  were not enough, or \<open>Undefined\<close>.
\<close>

definition main_vm :: "('w, 'o) outside \<Rightarrow> main_locals \<Rightarrow> nat \<Rightarrow> string \<Rightarrow> string option \<Rightarrow> string list \<Rightarrow>
    ('w, 'o, 'z) process_scheme \<Rightarrow> (int \<times> ('w, 'o, 'z) process_scheme) outcome" where
  "main_vm X u fuel k_path plugin argv m =
     (case main_create (hv X) (alloc X) (u_init u) m of
        None \<Rightarrow> Undefined
      | Some (Inl (r, m)) \<Rightarrow> Stopped (r, m)
      | Some (Inr m) \<Rightarrow>
          (case main_load X u k_path plugin (hd argv) m of
             None \<Rightarrow> Undefined
           | Some (None, m) \<Rightarrow> Stopped (vcpu_destroy (hv X) 0 m)
           | Some (Some entry_gva, m) \<Rightarrow>
               (case setup_args m CONF_ARGV_ADDR CONF_ARGS_ADDR argv of
                  None \<Rightarrow> Undefined
                | Some (False, m) \<Rightarrow> Stopped (vcpu_destroy (hv X) 0 m)
                | Some (True, m) \<Rightarrow>
                    (case push_start (hv X) (length argv) entry_gva m of
                       None \<Rightarrow> Undefined
                     | Some m \<Rightarrow>
                         (case vcpu_run (hv X) (osys X) (u_run u) fuel m of
                            Undefined \<Rightarrow> Undefined
                          | Running m \<Rightarrow> Running (0, m)
                          | Stopped m \<Rightarrow> Stopped (vcpu_destroy (hv X) 0 m))))))"

definition main :: "('w, 'o) outside \<Rightarrow> main_locals \<Rightarrow> nat \<Rightarrow> string list \<Rightarrow> ('w, 'o) program \<Rightarrow>
    (int \<times> ('w, 'o) program) outcome" where
  "main X u fuel argv m =
     (case parse_options (fopen_log X) [] (tl argv) default_options m of
        (None, m) \<Rightarrow> Stopped (1, m)
      | (Some (opts, argv), m) \<Rightarrow>
          (case kernel_path opts of
             None \<Rightarrow> Stopped (1, m)
           | Some k_path \<Rightarrow>
               if length argv < 1 then Stopped (1, m)
               else let m = m\<lparr>log_state := init_logging (log_level_opt opts) (Some (log_output opts)) (log_state m)\<rparr>
                 in main_vm X u fuel k_path (plugin_path opts) argv m))"

end
