(* ===== verification/HvexecSpec.thy ===== *)
theory HvexecSpec
  imports Hvexec
begin

text \<open>
  What the stages of \<open>main\<close> do to guest memory: the image of the program arguments, as
  pointers and strings, and the words on the stack.
\<close>

section \<open>The arguments in memory\<close>

fun args_image :: "(u64 \<rightharpoonup> u8) \<Rightarrow> u64 \<Rightarrow> u64 \<Rightarrow> string list \<Rightarrow> (u64 \<rightharpoonup> u8)" where
  "args_image f av ar [] = f"
| "args_image f av ar (s # ss) =
     args_image (poke (poke f av (bytes64 ar)) ar (c_string s)) (av + 8) (ar + of_nat (length (c_string s))) ss"

text \<open>The bytes of the first \<open>i\<close> strings, with their terminators.\<close>

definition strings_size :: "string list \<Rightarrow> nat" where
  "strings_size ss = sum_list (map (\<lambda>s. length (c_string s)) ss)"

lemma strings_size_simps [simp]:
  "strings_size [] = 0" "strings_size (s # ss) = length (c_string s) + strings_size ss"
  by (simp_all add: strings_size_def)

lemma length_bytes64 [simp]: "length (bytes64 v) = 8"
  by (rule codec64.length_enc)

lemma length_c_string: "length (c_string s) = Suc (length s)"
  by (simp add: c_string_def)

lemma setup_args_image:
  assumes "mem_inv m" "avail (gbyte m) av (8 * length ss)" "avail (gbyte m) ar (strings_size ss)"
    and "strings_size ss \<le> INT_MAX"
  shows "\<exists>m'. setup_args m av ar ss = Some (True, m') \<and> mem_inv m' \<and> gbyte m' = args_image (gbyte m) av ar ss
    \<and> (\<exists>h. m' = m\<lparr>heap := h\<rparr>)"
  using assms
proof (induction ss arbitrary: m av ar)
  case Nil
  then show ?case by (auto intro!: exI [of _ "heap m"])
next
  case (Cons s ss)
  let ?c = "c_string s"
  have len8: "length (bytes64 ar) \<le> INT_MAX" and lenc: "length ?c \<le> INT_MAX"
    using Cons.prems(4) by (simp_all add: INT_MAX_def)
  have a8: "avail (gbyte m) av (length (bytes64 ar))"
    using Cons.prems(2) by (rule avail_mono) simp
  obtain m1 where w1: "vm_mem_write m av (bytes64 ar) = Some (8, m1)" "mem_inv m1"
    and b1: "gbyte m1 = poke (gbyte m) av (bytes64 ar)"
    using gm.write_avail [OF Cons.prems(1) len8 a8] by auto
  have ac: "avail (gbyte m1) ar (length ?c)"
    unfolding b1 by (intro avail_poke avail_mono [OF Cons.prems(3)]) simp
  obtain m2 where w2: "vm_mem_write m1 ar ?c = Some (length ?c, m2)" "mem_inv m2"
    and b2: "gbyte m2 = poke (gbyte m1) ar ?c"
    using gm.write_avail [OF w1(2) lenc ac] by auto
  have shift: "avail f (a + of_nat k) n" if "avail f a (k + n)" for f a k n
    unfolding avail_def
  proof (intro allI impI)
    fix i assume "i < n"
    then have "k + i < k + n" by simp
    with that have "f (a + of_nat (k + i)) \<noteq> None"
      unfolding avail_def by blast
    then show "f (a + of_nat k + of_nat i) \<noteq> None"
      by (simp add: add.assoc)
  qed
  have av2: "avail (gbyte m2) (av + 8) (8 * length ss)"
    using shift [of "gbyte m" av 8 "8 * length ss"] Cons.prems(2) unfolding b2 b1
    by (intro avail_poke) simp
  have ar2: "avail (gbyte m2) (ar + of_nat (length ?c)) (strings_size ss)"
    using shift [of "gbyte m" ar "length ?c" "strings_size ss"] Cons.prems(3) unfolding b2 b1
    by (intro avail_poke) simp
  obtain m' where m': "setup_args m2 (av + 8) (ar + of_nat (length ?c)) ss = Some (True, m')" "mem_inv m'"
    "gbyte m' = args_image (gbyte m2) (av + 8) (ar + of_nat (length ?c)) ss" "\<exists>h. m' = m2\<lparr>heap := h\<rparr>"
    using Cons.IH [OF w2(2) av2 ar2] Cons.prems(4) by auto
  obtain h1 h2 where "m1 = m\<lparr>heap := h1\<rparr>" "m2 = m1\<lparr>heap := h2\<rparr>"
    using vm_mem_write_frame [OF Cons.prems(1) len8 w1(1)] vm_mem_write_frame [OF w1(2) lenc w2(1)]
    by metis
  with m'(4) have "\<exists>h. m' = m\<lparr>heap := h\<rparr>"
    by auto
  with m' w1(1) w2(1) show ?case
    by (simp add: b1 b2)
qed

lemma poke_outside:
  "\<not> in_block a (length bs) x \<Longrightarrow> length bs \<le> 2 ^ 64 \<Longrightarrow> poke f a bs x = f x"
  by (simp add: poke_apply)

lemma args_image_outside:
  assumes "unat av + 8 * length ss \<le> unat ar" "unat ar + strings_size ss < 2 ^ 64"
    and "\<not> in_block av (8 * length ss) x" "\<not> in_block ar (strings_size ss) x"
  shows "args_image f av ar ss x = f x"
  using assms
proof (induction ss arbitrary: f av ar)
  case Nil
  then show ?case by simp
next
  case (Cons s ss)
  have u: "unat (av + 8) = unat av + 8"
    using Cons.prems(1,2) by (subst unat_add_small) simp_all
  have v: "unat (ar + of_nat (length (c_string s))) = unat ar + length (c_string s)"
    using Cons.prems(2) by (intro unat_add_of_nat) simp
  have x: "\<not> in_block av 8 x" "\<not> in_block ar (length (c_string s)) x"
    "\<not> in_block (av + 8) (8 * length ss) x"
    "\<not> in_block (ar + of_nat (length (c_string s))) (strings_size ss) x"
    using Cons.prems by (auto simp: in_block_iff u v)
  have "length (c_string s) \<le> 2 ^ 64"
    using Cons.prems(2) by simp
  then show ?case
    using Cons.prems x by (simp add: Cons.IH u v poke_outside)
qed

lemma peek_cong: "(\<And>i. i < n \<Longrightarrow> f (a + of_nat i) = g (a + of_nat i)) \<Longrightarrow> peek f a n = peek g a n"
  unfolding peek_def by (intro map_cong) auto

lemma args_image_at:
  assumes "unat av + 8 * length ss \<le> unat ar" "unat ar + strings_size ss < 2 ^ 64" "i < length ss"
  shows "peek (args_image f av ar ss) (av + of_nat (8 * i)) 8 = bytes64 (ar + of_nat (strings_size (take i ss)))
    \<and> peek (args_image f av ar ss) (ar + of_nat (strings_size (take i ss))) (length (c_string (ss ! i)))
      = c_string (ss ! i)"
  using assms
proof (induction ss arbitrary: f av ar i)
  case Nil
  then show ?case by simp
next
  case (Cons s ss)
  let ?k = "length (c_string s)"
  let ?g = "poke (poke f av (bytes64 ar)) ar (c_string s)"
  have u: "unat (av + 8) = unat av + 8"
    using Cons.prems(1,2) by (subst unat_add_small) simp_all
  have v: "unat (ar + of_nat ?k) = unat ar + ?k"
    using Cons.prems(2) by (intro unat_add_of_nat) simp
  have le: "unat (av + 8) + 8 * length ss \<le> unat (ar + of_nat ?k)"
    "unat (ar + of_nat ?k) + strings_size ss < 2 ^ 64"
    using Cons.prems(1,2) by (simp_all add: u v)
  have k: "?k \<le> 2 ^ 64"
    using Cons.prems(2) by simp
  show ?case
  proof (cases i)
    case (Suc j)
    then show ?thesis
      using Cons.IH [OF le, of j ?g] Cons.prems(3) by (simp add: algebra_simps)
  next
    case 0
    have out: "args_image ?g (av + 8) (ar + of_nat ?k) ss x = ?g x"
      if "in_block av 8 x \<or> in_block ar ?k x" for x
      using that Cons.prems(1,2) by (intro args_image_outside le) (auto simp: in_block_iff u v)
    have "peek (args_image ?g (av + 8) (ar + of_nat ?k) ss) av 8 = peek ?g av 8"
      by (intro peek_cong out disjI1 in_blockI) simp_all
    also have "\<dots> = peek (poke f av (bytes64 ar)) av 8"
      using Cons.prems(1,2) k by (intro peek_poke_apart apart_by_unat) simp_all
    also have "\<dots> = bytes64 ar"
      using peek_poke_same [of "bytes64 ar" 8 f av] by simp
    finally have 1: "peek (args_image ?g (av + 8) (ar + of_nat ?k) ss) av 8 = bytes64 ar" .
    have "peek (args_image ?g (av + 8) (ar + of_nat ?k) ss) ar ?k = peek ?g ar ?k"
      using k by (intro peek_cong out disjI2 in_blockI) simp_all
    also have "\<dots> = c_string s"
      using peek_poke_same [OF k, of ?k] by simp
    finally show ?thesis
      using 1 0 by simp
  qed
qed

section \<open>The stages that write the arguments and the stack\<close>

lemma setup_args_writes:
  assumes inv: "mem_inv m" and n: "length args \<le> 32" and size: "strings_size args \<le> INT_MAX"
    and av: "avail (gbyte m) CONF_ARGV_ADDR (8 * length args)" "avail (gbyte m) CONF_ARGS_ADDR (strings_size args)"
  shows "\<exists>m'. setup_args m CONF_ARGV_ADDR CONF_ARGS_ADDR args = Some (True, m') \<and> mem_inv m'
    \<and> (\<forall>i < length args. \<exists>p. p = CONF_ARGS_ADDR + of_nat (strings_size (take i args))
        \<and> word64 (peek (gbyte m') (CONF_ARGV_ADDR + of_nat (8 * i)) 8) = p
        \<and> peek (gbyte m') p (Suc (length (args ! i))) = map of_char (args ! i) @ [0])
    \<and> (\<forall>x. in_block CONF_ARGV_ADDR (8 * length args) x \<or> in_block CONF_ARGS_ADDR (strings_size args) x
        \<or> gbyte m' x = gbyte m x)
    \<and> (\<exists>h. m' = m\<lparr>heap := h\<rparr>)"
proof -
  have le: "unat CONF_ARGV_ADDR + 8 * length args \<le> unat CONF_ARGS_ADDR"
    "unat CONF_ARGS_ADDR + strings_size args < 2 ^ 64"
    using n size by (simp_all add: conf_defs)
  obtain m' where m': "setup_args m CONF_ARGV_ADDR CONF_ARGS_ADDR args = Some (True, m')" "mem_inv m'"
    "gbyte m' = args_image (gbyte m) CONF_ARGV_ADDR CONF_ARGS_ADDR args" "\<exists>h. m' = m\<lparr>heap := h\<rparr>"
    using setup_args_image [OF inv av size] by blast
  have at: "word64 (peek (gbyte m') (CONF_ARGV_ADDR + of_nat (8 * i)) 8)
      = CONF_ARGS_ADDR + of_nat (strings_size (take i args))"
    "peek (gbyte m') (CONF_ARGS_ADDR + of_nat (strings_size (take i args))) (Suc (length (args ! i)))
      = map of_char (args ! i) @ [0]" if "i < length args" for i
    using args_image_at [OF le that, of "gbyte m"] unfolding m'(3)
    by (simp_all add: codec64.dec_enc length_c_string c_string_def)
  have "in_block CONF_ARGV_ADDR (8 * length args) x \<or> in_block CONF_ARGS_ADDR (strings_size args) x
      \<or> gbyte m' x = gbyte m x" for x
    using args_image_outside [OF le, of x "gbyte m"] unfolding m'(3) by blast
  with m'(1,2,4) at show ?thesis by blast
qed

lemma push64_poke:
  assumes inv: "mem_inv m" and ok: "hv_regs_ok H rg vc" and sp: "sp = rg (world m) HV_X86_RSP - 8"
    and av: "avail (gbyte m) sp 8"
  obtains m' where "push64 H m v = Some (0, m')" "mem_inv m'"
    "rg (world m') = (rg (world m))(HV_X86_RSP := sp)" "gbyte m' = poke (gbyte m) sp (bytes64 v)"
    "same_memory (m\<lparr>heap := heap m'\<rparr>) m'"
proof -
  have len: "length (bytes64 v) \<le> INT_MAX"
    by (simp add: INT_MAX_def)
  have sp': "sp = rg (world m) HV_X86_RSP - of_nat (length (bytes64 v))"
    using sp by simp
  show thesis
    using push_spec [OF inv ok len sp'] av that unfolding push64_def length_bytes64 by metis
qed

lemma push_start_writes:
  assumes inv: "mem_inv m" and ok: "hv_regs_ok H rg vc" and sp: "sp = rg (world m) HV_X86_RSP - 24"
    and fit: "unat sp + 24 < 2 ^ 64" and av: "avail (gbyte m) sp 24"
  shows "\<exists>m'. push_start H argc entry_gva m = Some m' \<and> mem_inv m'
    \<and> rg (world m') = (rg (world m))(HV_X86_RSP := sp)
    \<and> word64 (peek (gbyte m') sp 8) = entry_gva
    \<and> word64 (peek (gbyte m') (sp + 8) 8) = of_nat argc
    \<and> word64 (peek (gbyte m') (sp + 16) 8) = CONF_ARGV_ADDR
    \<and> (\<forall>x. in_block sp 24 x \<or> gbyte m' x = gbyte m x)
    \<and> same_memory (m\<lparr>heap := heap m'\<rparr>) m'"
proof -
  have u: "unat (sp + 8) = unat sp + 8" "unat (sp + 16) = unat sp + 16"
    using fit by (subst unat_add_small; simp)+
  have "avail (gbyte m) (sp + of_nat k) 8" if "k + 8 \<le> 24" for k
    unfolding avail_def
  proof (intro allI impI)
    fix i :: nat assume "i < 8"
    then have "k + i < 24" using that by simp
    with av have "gbyte m (sp + of_nat (k + i)) \<noteq> None"
      unfolding avail_def by blast
    then show "gbyte m (sp + of_nat k + of_nat i) \<noteq> None"
      by (simp add: add.assoc)
  qed
  from this [of 16] this [of 8] this [of 0]
  have a: "avail (gbyte m) (sp + 16) 8" "avail (gbyte m) (sp + 8) 8" "avail (gbyte m) sp 8"
    by simp_all
  obtain m1 where m1: "push64 H m CONF_ARGV_ADDR = Some (0, m1)" "mem_inv m1"
    "rg (world m1) = (rg (world m))(HV_X86_RSP := sp + 16)"
    "gbyte m1 = poke (gbyte m) (sp + 16) (bytes64 CONF_ARGV_ADDR)"
    "same_memory (m\<lparr>heap := heap m1\<rparr>) m1"
    using push64_poke [OF inv ok _ a(1), of CONF_ARGV_ADDR] sp by auto
  have a1: "avail (gbyte m1) (sp + 8) 8"
    unfolding m1(4) using a(2) by (rule avail_poke)
  obtain m2 where m2: "push64 H m1 (of_nat argc) = Some (0, m2)" "mem_inv m2"
    "rg (world m2) = (rg (world m1))(HV_X86_RSP := sp + 8)"
    "gbyte m2 = poke (gbyte m1) (sp + 8) (bytes64 (of_nat argc))"
    "same_memory (m1\<lparr>heap := heap m2\<rparr>) m2"
    using push64_poke [OF m1(2) ok _ a1, of "of_nat argc"] m1(3) by auto
  have a2: "avail (gbyte m2) sp 8"
    unfolding m2(4) m1(4) using a(3) by (intro avail_poke)
  obtain m3 where m3: "push64 H m2 entry_gva = Some (0, m3)" "mem_inv m3"
    "rg (world m3) = (rg (world m2))(HV_X86_RSP := sp)"
    "gbyte m3 = poke (gbyte m2) sp (bytes64 entry_gva)"
    "same_memory (m2\<lparr>heap := heap m3\<rparr>) m3"
    using push64_poke [OF m2(2) ok _ a2, of entry_gva] m2(3) by auto
  have apart: "apart sp 8 (sp + 8) 8" "apart sp 8 (sp + 16) 8" "apart (sp + 8) 8 (sp + 16) 8"
    using fit u by (auto intro!: apart_by_unat)
  have "peek (gbyte m3) sp 8 = bytes64 entry_gva"
    unfolding m3(4) by (simp add: peek_poke_same)
  moreover have "peek (gbyte m3) (sp + 8) 8 = bytes64 (of_nat argc)"
    unfolding m3(4) m2(4) by (simp add: peek_poke_apart peek_poke_same apart)
  moreover have "peek (gbyte m3) (sp + 16) 8 = bytes64 CONF_ARGV_ADDR"
    unfolding m3(4) m2(4) m1(4) by (simp add: peek_poke_apart peek_poke_same apart)
  moreover have "in_block sp 24 x \<or> gbyte m3 x = gbyte m x" for x
    using fit u unfolding m3(4) m2(4) m1(4) by (auto simp: poke_apply in_block_iff)
  moreover have "same_memory (m\<lparr>heap := heap m3\<rparr>) m3"
    using m1(5) m2(5) m3(5) by (blast intro: same_memory_heap_trans)
  ultimately show ?thesis
    using m1 m2 m3 by (simp add: push_start_def codec64.dec_enc)
qed

end
