(* ===== verification/HvexecProperties.thy ===== *)
theory HvexecProperties
  imports HvexecSpec LoaderProperties CpuProperties SyscallProperties
begin

text \<open>
  The properties of \<open>main\<close> and its stages, with instances on the concrete process and
  system of \<open>DemoProcess\<close> and \<open>LoaderProperties\<close>.
\<close>

section \<open>The command line\<close>

text \<open>C35: a command line that writes a list of options and then the target and its
  arguments is read back as it was meant: the last of several options of a kind wins, each
  \<open>-o\<close> opens its file, and \<open>main\<close> goes on with exactly the words from the target on; it
  returns 1 without a kernel, without a target, or when a log file does not open.\<close>

theorem main_reads_options:
  assumes "args = [] \<or> hd args = [] \<or> hd (hd args) \<noteq> CHR ''-''"
  shows "main X u fuel (prog # concat (map opt_words xs) @ args) m =
    (case opt_effect (fopen_log X) xs default_options m of
       (None, m') \<Rightarrow> Stopped (1, m')
     | (Some opts, m') \<Rightarrow>
         if kernel_path opts = None \<or> args = [] then Stopped (1, m')
         else main_vm X u fuel (the (kernel_path opts)) (plugin_path opts) args
           (m'\<lparr>log_state := init_logging (log_level_opt opts) (Some (log_output opts)) (log_state m')\<rparr>))"
proof -
  have "no_option args"
    using assms by (simp add: no_option_def)
  from parse_options_words [OF this, of "fopen_log X" xs default_options m]
  show ?thesis
    by (cases "opt_effect (fopen_log X) xs default_options m")
      (auto simp: main_def Let_def Suc_le_eq split: option.splits)
qed

section \<open>The way out\<close>

lemma vm_destroy_last:
  "vm_destroy H ret m = (r, m') \<Longrightarrow> ret \<in> {0, 1} \<Longrightarrow>
     r \<in> {0, 1} \<and> (\<exists>w. world m' = snd (hv_vm_destroy H w) \<and> (fst (hv_vm_destroy H w) \<noteq> 0 \<longrightarrow> r = 1))"
  by (auto simp: vm_destroy_def split: prod.splits if_splits) (metis fst_conv snd_conv)+

lemma mem_destroy_last:
  "mem_destroy H ret m = (r, m') \<Longrightarrow> ret \<in> {0, 1} \<Longrightarrow>
     r \<in> {0, 1} \<and> (\<exists>w. world m' = snd (hv_vm_destroy H w) \<and> (fst (hv_vm_destroy H w) \<noteq> 0 \<longrightarrow> r = 1))"
  unfolding mem_destroy_def by (rule vm_destroy_last)

lemma vcpu_destroy_last:
  "vcpu_destroy H ret m = (r, m') \<Longrightarrow> ret \<in> {0, 1} \<Longrightarrow>
     r \<in> {0, 1} \<and> (\<exists>w. world m' = snd (hv_vm_destroy H w) \<and> (fst (hv_vm_destroy H w) \<noteq> 0 \<longrightarrow> r = 1))"
  unfolding vcpu_destroy_def
  by (cases "hv_vcpu_destroy H (world m)") (auto dest: mem_destroy_last split: if_splits)

lemmas destroy_last = vm_destroy_last mem_destroy_last vcpu_destroy_last


text \<open>when the kernel, the plugin or the application cannot be loaded, the guest does
  not run, and yet the result is 0 as long as the clean-up succeeds.\<close>

lemma main_vm_load_failure:
  assumes "main_create (hv X) (alloc X) (u_init u) m = Some (Inr m1)"
    and "main_load X u k plugin (hd argv) m1 = Some (None, m2)"
    and "\<forall>w. fst (hv_vcpu_destroy (hv X) w) = 0 \<and> fst (hv_vm_destroy (hv X) w) = 0"
  shows "\<exists>m'. main_vm X u fuel k plugin argv m = Stopped (0, m')
    \<and> world m' = snd (hv_vm_destroy (hv X) (snd (hv_vcpu_destroy (hv X) (world m2))))"
  using assms by (simp add: main_vm_def vcpu_destroy_def mem_destroy_def vm_destroy_def vm_mem_destroy_def
      split: prod.splits) (metis fst_conv snd_conv)

section \<open>What the guest finds\<close>

text \<open>C10: the arguments of the target, when there are at most 32 and memory for them: an
  array of pointers at \<open>CONF_ARGV_ADDR\<close> and the strings, each with its terminator, one
  after the other from \<open>CONF_ARGS_ADDR\<close>; nothing else changes. With more arguments the
  array would run into the strings.\<close>

theorem setup_args_layout:
  assumes inv: "mem_inv m" and n: "length args \<le> 32" and size: "strings_size args \<le> INT_MAX"
    and av: "avail (gbyte m) CONF_ARGV_ADDR (8 * length args)" "avail (gbyte m) CONF_ARGS_ADDR (strings_size args)"
  shows "\<exists>m'. setup_args m CONF_ARGV_ADDR CONF_ARGS_ADDR args = Some (True, m') \<and> mem_inv m'
    \<and> (\<forall>i < length args. \<exists>p. p = CONF_ARGS_ADDR + of_nat (strings_size (take i args))
        \<and> word64 (peek (gbyte m') (CONF_ARGV_ADDR + of_nat (8 * i)) 8) = p
        \<and> peek (gbyte m') p (Suc (length (args ! i))) = map of_char (args ! i) @ [0])
    \<and> (\<forall>x. in_block CONF_ARGV_ADDR (8 * length args) x \<or> in_block CONF_ARGS_ADDR (strings_size args) x
        \<or> gbyte m' x = gbyte m x)"
  using setup_args_writes [OF assms] by blast

text \<open>the stack that the kernel finds: the entry point on top, then the number of
  arguments, then the address of the argument array, and the stack pointer at the first.\<close>

lemma push_start_words:
  assumes inv: "mem_inv m" and ok: "hv_regs_ok H rg vc" and sp: "sp = rg (world m) HV_X86_RSP - 24"
    and fit: "unat sp + 24 < 2 ^ 64" and av: "avail (gbyte m) sp 24"
  shows "\<exists>m'. push_start H argc entry_gva m = Some m' \<and> mem_inv m'
    \<and> rg (world m') = (rg (world m))(HV_X86_RSP := sp)
    \<and> word64 (peek (gbyte m') sp 8) = entry_gva
    \<and> word64 (peek (gbyte m') (sp + 8) 8) = of_nat argc
    \<and> word64 (peek (gbyte m') (sp + 16) 8) = CONF_ARGV_ADDR
    \<and> (\<forall>x. in_block sp 24 x \<or> gbyte m' x = gbyte m x)"
  using push_start_writes [OF assms] by blast

lemma push_start_words_witness:
  "\<exists>m'. push_start demo_hv 2 0x100000f50 (demo_process [(HV_X86_RSP, 0x1000)] [] []) = Some m'
     \<and> word64 (peek (gbyte m') 0xFE8 8) = 0x100000f50"
proof -
  let ?m = "demo_process [(HV_X86_RSP, 0x1000)] [] []"
  have "unat (0xFE8 + of_nat i :: u64) = 0xFE8 + i" if "i < 24" for i
    using that by (subst unat_add_of_nat) simp_all
  then have "avail (gbyte ?m) 0xFE8 24"
    by (simp add: avail_def demo_process_memory root_machine_byte)
  with push_start_words [OF demo_process_memory(1) demo_regs_ok, of "0xFE8" "[(HV_X86_RSP, 0x1000)]" "[]" "[]" 2
      "0x100000f50"]
  show ?thesis by auto
qed

theorem setup_args_layout_witness:
  "\<exists>m'. setup_args setup_machine CONF_ARGV_ADDR CONF_ARGS_ADDR [''ls'', ''-l''] = Some (True, m')
     \<and> word64 (peek (gbyte m') 0x7108 8) = 0x7203
     \<and> peek (gbyte m') 0x7203 3 = [of_char (CHR ''-''), of_char (CHR ''l''), 0]"
proof -
  have byte: "gbyte setup_machine g \<noteq> None" if "unat g < 0x10000" for g
    using gbyte_mapped_iff [OF setup_machine_ok(1), of g] that
    by (simp add: setup_machine_def full_machine_def in_region_def r_lo_def r_hi_def r_size_def)
  have av: "avail (gbyte setup_machine) a n" if "unat a + n < 0x10000" for a n
    unfolding avail_def
  proof (intro allI impI byte)
    fix i assume "i < n"
    with that show "unat (a + of_nat i) < 0x10000"
      by (subst unat_add_of_nat) simp_all
  qed
  have size: "strings_size [''ls'', ''-l''] = 6"
    by (simp add: length_c_string)
  have le: "length [''ls'', ''-l''] \<le> 32" "strings_size [''ls'', ''-l''] \<le> INT_MAX"
    by (simp_all add: length_c_string INT_MAX_def)
  have avs: "avail (gbyte setup_machine) CONF_ARGV_ADDR (8 * length [''ls'', ''-l''])"
    "avail (gbyte setup_machine) CONF_ARGS_ADDR (strings_size [''ls'', ''-l''])"
    unfolding size by (rule av; simp add: conf_defs)+
  obtain m' where m': "setup_args setup_machine CONF_ARGV_ADDR CONF_ARGS_ADDR [''ls'', ''-l''] = Some (True, m')"
    and at: "\<forall>i < length [''ls'', ''-l'']. \<exists>p. p = CONF_ARGS_ADDR + of_nat (strings_size (take i [''ls'', ''-l'']))
        \<and> word64 (peek (gbyte m') (CONF_ARGV_ADDR + of_nat (8 * i)) 8) = p
        \<and> peek (gbyte m') p (Suc (length ([''ls'', ''-l''] ! i))) = map of_char ([''ls'', ''-l''] ! i) @ [0]"
    using setup_args_layout [OF setup_machine_ok(1) le avs] by blast
  from at [THEN spec, of 1] m' show ?thesis
    by (simp add: length_c_string conf_defs numeral_3_eq_3)
qed

section \<open>A concrete run\<close>

definition demo_outside :: "(demo_world, u8 list) outside" where
  "demo_outside = \<lparr>hv = demo_hv, alloc = demo_host, osys = demo_os, files = demo_files [0xf4],
     dl = demo_dl, headers = apple_headers, fopen_log = (\<lambda>h p. (Some 2, h))\<rparr>"

definition demo_main_locals :: main_locals where
  "demo_main_locals = \<lparr>u_init = (\<lambda>i v. 0), u_raw = 0, u_load = demo_load_locals, u_entry_gva = 0,
     u_run = (\<lambda>i. call_locals)\<rparr>"

definition demo_program :: "(demo_world, u8 list) program" where
  "demo_program = process.extend (process_of demo_machine) \<lparr>log_state = log_start\<rparr>"

theorem main_reads_options_witness:
  "main demo_outside demo_main_locals 5 [''hvexec'', ''-k'', ''boot'', ''-i'', ''-l'', ''WARN'', ''app'', ''-x''] demo_program
    = main_vm demo_outside demo_main_locals 5 ''boot'' None [''app'', ''-x'']
        (demo_program\<lparr>syscall_interactive := True, log_state := init_logging WARN (Some 1) (log_state demo_program)\<rparr>)"
  using main_reads_options [of "[''app'', ''-x'']" demo_outside demo_main_locals 5 "''hvexec''"
      "[Kernel ''boot'', Interactive, Level WARN]" demo_program]
  by (simp add: default_options_def)


lemma demo_self: "process_of demo_machine\<lparr>world := world demo_machine\<rparr> = process_of demo_machine"
  by (simp add: process_of_def machine.defs)

lemma demo_msrs: "fst (enable_native_msrs demo_hv l m) = False"
  by (induction l arbitrary: m) (simp_all add: demo_hv_def)

lemma demo_create:
  obtains m1 where "main_create demo_hv demo_host u (process_of demo_machine) = Some (Inr m1)"
    "demo_ready m1" "failures m1 = failures (process_of demo_machine)"
proof -
  let ?m = "process_of demo_machine"
  have start: "mem_regions ?m = []" "pml4 ?m = 0" "heap ?m = (\<lambda>a. None)" "calls ?m = 0" "failures ?m = 0"
    by (simp_all add: process_of_def machine.defs demo_machine_def)
  obtain m where init: "vm_mem_init demo_hv demo_host u ?m 16 = Some (0, m)" and inv: "mem_inv m"
    and fresh: "demo_fresh m" and c: "calls m \<le> 200" "failures m = 0" "phys_top (mem_regions m) \<le> 65 * 4096"
    and zero: "\<forall>i. i < 0x10000 \<longrightarrow> gbyte m (of_nat i) = Some 0" and high: "\<forall>a. demo_high a \<longrightarrow> heap m a = None"
    by (rule demo_init_from [OF start, of u]) blast
  have "avail (gbyte m) (of_nat k) n" if "k + n \<le> 0x10000" for k n
    unfolding avail_def
  proof (intro allI impI)
    fix i assume "i < n"
    then have "k + i < 0x10000" using that by simp
    with zero have "gbyte m (of_nat (k + i)) = Some 0" by blast
    then show "gbyte m (of_nat k + of_nat i) \<noteq> None" by simp
  qed
  from this [of 0 32] this [of "0x6FFC" 4]
  have av: "avail (gbyte m) 0 32" "avail (gbyte m) 0x6FFC 4" by simp_all
  obtain r m1 where s: "vcpu_setup_ia32 demo_hv m = Some (r, m1)" "mem_inv m1"
    and sm: "same_memory (m\<lparr>heap := heap m1\<rparr>) m1" and d: "dom (heap m1) = dom (heap m)"
    by (rule vcpu_setup_ia32_ok [OF inv demo_regs_ok demo_msr_ok av])
  have "r = 0"
    using s(1) by (auto simp: vcpu_setup_ia32_def Let_def bind_eq_Some_conv split_beta demo_msrs)
  moreover have "hv_vm_create demo_hv w = (0, w)" "hv_vcpu_create demo_hv w = (0, w)" for w
    by (simp_all add: demo_hv_def)
  ultimately have run: "main_create demo_hv demo_host u ?m = Some (Inr m1)"
    using init s(1) by (simp add: main_create_def conf_defs demo_self)
  have same: "calls m1 = calls m" "failures m1 = failures m" "mem_regions m1 = mem_regions m"
    using same_memory_counters [OF sm] same_memoryD(6) [OF sm] by simp_all
  have "heap m1 a = None \<longleftrightarrow> heap m a = None" for a
    using d by (metis domIff)
  then have "demo_ready m1"
    using fresh high c s(2) by (simp add: demo_ready_def demo_fresh_def same)
  with run c(2) same(2) start(5) show thesis
    by (intro that [of m1]) simp_all
qed

lemma main_vm_load_failure_witness:
  "\<exists>m'. main_vm (demo_outside\<lparr>files := (demo_files [])\<lparr>fo_open := \<lambda>h p. (-1, h)\<rparr>\<rparr>) demo_main_locals 5 ''boot'' None
     [''app''] (process_of demo_machine) = Stopped (0, m')"
proof -
  let ?X = "demo_outside\<lparr>files := (demo_files [])\<lparr>fo_open := \<lambda>h p. (-1, h)\<rparr>\<rparr>"
  obtain m1 where m1: "main_create demo_hv demo_host (u_init demo_main_locals) (process_of demo_machine) = Some (Inr m1)"
    by (rule demo_create)
  have X: "hv ?X = demo_hv" "alloc ?X = demo_host"
    by (simp_all add: demo_outside_def)
  obtain m2 where "main_load ?X demo_main_locals ''boot'' None (hd [''app'']) m1 = Some (None, m2)"
    by (simp add: main_load_def load_raw_def)
  moreover have "\<forall>w. fst (hv_vcpu_destroy demo_hv w) = 0 \<and> fst (hv_vm_destroy demo_hv w) = 0"
    by (simp add: demo_hv_def)
  ultimately show ?thesis
    using main_vm_load_failure [of ?X demo_main_locals "process_of demo_machine" m1 "''boot''" None "[''app'']" m2 5] m1
    unfolding X by blast
qed

end
