(* ===== verification/Carries.thy ===== *)
theory Carries
  imports Plugin VirtMem
begin

text \<open>
  What the operations on guest memory leave alone besides memory itself: the registers and
  whatever else of the world the framework's mapping calls keep, and the fields of the state
  that belong to other parts of the program.
\<close>

definition hv_map_ok :: "'w hv_ops \<Rightarrow> ('w \<Rightarrow> 'r) \<Rightarrow> bool" where
  "hv_map_ok H rg \<longleftrightarrow> (\<forall>w a b c d. rg (snd (hv_vm_map H w a b c d)) = rg w)
     \<and> (\<forall>w a b. rg (snd (hv_vm_unmap H w a b)) = rg w)"

lemma hv_map_ok_unit [simp]: "hv_map_ok H (\<lambda>w. ())"
  by (simp add: hv_map_ok_def)

definition carries :: "('w \<Rightarrow> 'r) \<Rightarrow> ('w, 'z) machine_scheme \<Rightarrow> ('w, 'z) machine_scheme \<Rightarrow> bool" where
  "carries rg m m' \<longleftrightarrow> rg (world m') = rg (world m) \<and> machine.more m' = machine.more m"

lemma carries_refl [simp]: "carries rg m m"
  by (simp add: carries_def)

lemma carries_trans: "carries rg m m1 \<Longrightarrow> carries rg m1 m2 \<Longrightarrow> carries rg m m2"
  by (simp add: carries_def)

lemma carries_plugin: "carries rg m m' \<Longrightarrow> plugin_table m' = plugin_table m"
  for m m' :: "('w, 'o, 'z) process_scheme"
  by (cases m; cases m') (simp add: carries_def machine.defs)

lemma map_gpa_carries:
  assumes H: "hv_map_ok H rg" and ret: "map_gpa H A m g n p = (r, m')"
  shows "carries rg m m'"
proof -
  have "rg w' = rg w" if "hv_vm_map H w a b c d = (e, w')" for w a b c d e w'
    using H that unfolding hv_map_ok_def by (metis snd_conv)
  moreover have "rg (snd (hv_vm_unmap H w a b)) = rg w" for w a b
    using H by (simp add: hv_map_ok_def)
  ultimately show ?thesis
    using ret by (auto simp: map_gpa_def carries_def Let_def split: if_splits option.splits prod.splits)
qed

lemma valloc_carries: "valloc A m sz = (p, m') \<Longrightarrow> carries rg m m'"
  by (auto simp: valloc_def carries_def Let_def split: if_splits)

lemma carries_free_block [simp]: "carries rg m (free_block p sz m') \<longleftrightarrow> carries rg m m'"
  by (simp add: free_block_def carries_def)

lemma vm_mem_alloc_carries:
  assumes "hv_map_ok H rg" "vm_mem_alloc H A m n = (r, m')"
  shows "carries rg m m'"
proof (cases "find_free_mem_region (mem_regions m) n")
  case None
  with assms(2) show ?thesis by (simp add: vm_mem_alloc_def)
next
  case (Some g)
  obtain hva m1 where v: "valloc A m (n * CONF_PAGE_SIZE) = (hva, m1)" by fastforce
  obtain q m2 where g: "map_gpa H A m1 g n hva = (q, m2)" by fastforce
  note w = valloc_carries [OF v, of rg]
  note w' = carries_trans [OF w map_gpa_carries [OF assms(1) g]]
  show ?thesis
    using assms(2) Some v g w w' by (auto simp: vm_mem_alloc_def split: if_splits)
qed

lemma vm_mem_write_loop_heap:
  "vm_mem_write_loop m a k bs = Some (n, m') \<Longrightarrow>
     world m' = world m \<and> failures m' = failures m \<and> machine.more m' = machine.more m"
  by (induction bs arbitrary: m a k) (auto simp: Let_def split: if_splits)

lemma vm_mem_write_heap:
  assumes "vm_mem_write m a bs = Some (n, m')"
  shows vm_mem_write_carries: "carries rg m m'" and vm_mem_write_failures: "failures m' = failures m"
  using vm_mem_write_loop_heap assms unfolding vm_mem_write_def carries_def by (metis, blast)

lemma next_table_carries:
  assumes "hv_map_ok H rg" "next_table H A e0 t0 m a = Some (t, m')"
  shows "carries rg m m'"
proof -
  obtain x m1 where al: "vm_mem_alloc H A m 1 = (x, m1)" by fastforce
  note w = vm_mem_alloc_carries [OF assms(1) al]
  have "carries rg m m2" if "vm_mem_write m1 b bs = Some (k, m2)" for b bs k m2
    using carries_trans [OF w vm_mem_write_carries [OF that]] .
  then show ?thesis
    using assms(2) al
    by (auto simp: next_table_def Let_def dest: vm_mem_write_carries
        split: Option.bind_splits option.splits prod.splits if_splits)
qed

lemma map_gva_page_carries:
  assumes H: "hv_map_ok H rg" and ret: "map_gva_page H A u m gva gpa = Some m'"
  shows "carries rg m m'"
proof -
  have "carries rg m m4" if "carries rg m m1" "carries rg m1 m2" "carries rg m2 m3" "carries rg m3 m4" for m1 m2 m3 m4
    using that by (simp add: carries_def)
  then show ?thesis
    using ret by (auto simp: map_gva_page_def Let_def dest!: next_table_carries [OF H] vm_mem_write_carries [where rg = rg]
        split: Option.bind_splits)
qed

lemma map_gva_loop_carries:
  assumes "hv_map_ok H rg"
  shows "map_gva_loop H A u m gva gpa n = Some m' \<Longrightarrow> carries rg m m'"
proof (induction n arbitrary: m gva gpa)
  case (Suc n)
  then show ?case
    by (auto dest!: map_gva_page_carries [OF assms] split: Option.bind_splits intro: carries_trans)
qed simp

lemma map_gva_carries:
  assumes H: "hv_map_ok H rg" and ret: "map_gva H A u m gva n gpa = Some (r, m')"
  shows "carries rg m m'"
proof -
  obtain ok m1 where root: "map_gva_root H A m = (ok, m1)" by fastforce
  have "carries rg m m1"
    using root by (auto simp: map_gva_root_def carries_def dest: vm_mem_alloc_carries [OF H]
        split: if_splits option.splits prod.splits)
  then show ?thesis
    using ret root carries_trans [OF _ map_gva_loop_carries [OF H]]
    by (auto simp: map_gva_def Let_def split: if_splits)
qed

end
