(* ===== verification/Boot.thy ===== *)
theory Boot
  imports HvexecSpec LoaderRuns VcpuSetup Carries
begin

text \<open>
  The way from a fresh machine to the first entry of the guest, over the stages of \<open>main\<close>:
  the invariant \<open>boot_inv\<close> that all stages keep once the memory is set up, and what each
  stage does to the registers, the memory and the page tables.
\<close>

section \<open>Page tables under writes elsewhere\<close>

lemma frame_pte:
  assumes pt: "pt_ok m" and fr: "frame W m m'" and root: "pml4_gpa m' = pml4_gpa m" "pml4 m' = pml4 m"
    and out: "\<And>x. table_byte m x \<Longrightarrow> \<not> W x"
  shows "pte m' = pte m"
proof
  fix v
  have "leaf m' (page_path v) (v mod 512) = leaf m (page_path v) (v mod 512)"
    by (rule frame_tables(3) [OF pt fr root(1)]) (use out in simp_all)
  then show "pte m' v = pte m v"
    by (simp add: pte_def root)
qed

section \<open>The invariant of the boot\<close>

text \<open>
  The first 16 pages are there, hold no page table, and are mapped to themselves: the
  kernel, the stack, the descriptor table and the arguments all lie in them.
\<close>

definition low :: "u64 \<Rightarrow> bool" where
  "low x \<longleftrightarrow> unat x < 0x10000"

definition boot_inv :: "('w, 'z) machine_scheme \<Rightarrow> bool" where
  "boot_inv m \<longleftrightarrow> mem_inv m \<and> pt_ok m \<and> pml4 m \<noteq> 0
     \<and> (\<forall>v < 16. pte m v = link_to (of_nat (4096 * v)))
     \<and> (\<forall>x. low x \<longrightarrow> gbyte m x \<noteq> None \<and> \<not> table_byte m x)"

lemma boot_invD:
  assumes "boot_inv m"
  shows "mem_inv m" "pt_ok m" "pt_inv m" "pml4 m \<noteq> 0"
    and "v < 16 \<Longrightarrow> pte m v = link_to (of_nat (4096 * v))"
    and "low x \<Longrightarrow> gbyte m x \<noteq> None" "low x \<Longrightarrow> \<not> table_byte m x" "tbyte m = table_byte m"
  using assms by (simp_all add: boot_inv_def pt_inv_def tbyte_def fun_eq_iff)

lemma boot_translation:
  assumes inv: "boot_inv m" and x: "low x"
  shows "gva_to_gpa e m x = Some x"
proof -
  have v: "unat x div 4096 < 16"
    using x by (simp add: low_def)
  show ?thesis
    by (rule mmu.identity [OF conjI [OF boot_invD(1,2) [OF inv]] _ boot_invD(5) [OF inv v] refl]) (use v in simp)
qed

text \<open>A stage that writes only to the first pages.\<close>

lemma boot_inv_write:
  assumes inv: "boot_inv m" "mem_inv m'" and fr: "frame low m m'"
    and root: "pml4 m' = pml4 m" "pml4_gpa m' = pml4_gpa m"
  shows "boot_inv m'" and "pte m' = pte m" and "table_byte m' x \<longleftrightarrow> table_byte m x"
proof -
  have out: "table_byte m x \<Longrightarrow> \<not> low x" for x
    using boot_invD(7) [OF inv(1)] by blast
  note pt = boot_invD(2) [OF inv(1)]
  show p: "pte m' = pte m"
    by (rule frame_pte [OF pt fr root(2,1) out])
  show t: "table_byte m' x \<longleftrightarrow> table_byte m x" for x
    by (rule frame_tables(2) [OF pt fr root(2) out])
  have "pt_ok m'"
    by (rule frame_tables(1) [OF pt fr root(2) out])
  moreover have "gbyte m' x \<noteq> None" if "low x" for x
    using fr boot_invD(6) [OF inv(1) that] by (simp add: frame_def)
  ultimately show "boot_inv m'"
    using boot_invD(4,5,7) [OF inv(1)] inv(2) unfolding boot_inv_def p t root(1) by blast
qed

lemma frame_of_bytes:
  "(\<And>x. gbyte m x \<noteq> None \<Longrightarrow> gbyte m' x \<noteq> None) \<Longrightarrow> (\<And>x. \<not> W x \<Longrightarrow> gbyte m' x = gbyte m x) \<Longrightarrow> frame W m m'"
  by (simp add: frame_def)

section \<open>The stages\<close>

lemma in_block_low: "in_block p n x \<Longrightarrow> unat p + n \<le> 0x10000 \<Longrightarrow> low x"
  by (simp add: low_def in_block_iff)

lemma low_avail:
  assumes inv: "boot_inv m" and le: "unat a + n \<le> 0x10000"
  shows "avail (gbyte m) a n"
  unfolding avail_def
proof (intro allI impI)
  fix i assume i: "i < n"
  then have "in_block a n (a + of_nat i)"
    using le by (intro in_blockI) simp_all
  then have "low (a + of_nat i)"
    using le by (rule in_block_low)
  then show "gbyte m (a + of_nat i) \<noteq> None"
    by (rule boot_invD(6) [OF inv])
qed

text \<open>\<open>main_create\<close>, from a machine without memory.\<close>

lemma write_words_failures: "write_words m a vs = Some m' \<Longrightarrow> failures m' = failures m"
  by (induction vs arbitrary: m a) (auto dest: vm_mem_write_failures split: Option.bind_splits)

lemma enable_native_msrs_failures:
  "enable_native_msrs H msrs m = (failed, m') \<Longrightarrow> failures m' = failures m"
proof (induction msrs arbitrary: m)
  case Nil
  then show ?case by simp
next
  case (Cons msr msrs)
  obtain e w where "hv_vcpu_enable_native_msr H (world m) msr True = (e, w)"
    by fastforce
  with Cons.prems Cons.IH [of "m\<lparr>world := w\<rparr>"] show ?case
    by (cases "e = 0") (auto simp: Let_def)
qed

lemma vcpu_setup_failures:
  assumes ret: "vcpu_setup_ia32 H m = Some (r, m')"
  shows "failures m' = failures m"
proof -
  obtain m1 failed m2 n m3 where w: "write_words (write_fields H vmcs_setup m) gdt_gpa gdt_entries = Some m1"
    and e: "enable_native_msrs H native_msrs (write_fields H vmcs_setup_tables m1) = (failed, m2)"
    and v: "vm_mem_write m2 (CONF_STACK_ADDR - 4) (take 4 (bytes64 (get_pml4_gpa m2))) = Some (n, m3)"
    and m': "m' = write_regs H reg_setup m3"
    using ret by (auto simp: vcpu_setup_ia32_def Let_def split: Option.bind_splits prod.splits)
  show ?thesis
    unfolding m' same_memory_counters(2) [OF write_regs_same_memory] vm_mem_write_failures [OF v]
      enable_native_msrs_failures [OF e] same_memory_counters(2) [OF write_fields_same_memory]
      write_words_failures [OF w] ..
qed

text \<open>\<open>main_create\<close>, from a machine without memory.\<close>

lemma main_create_boot:
  assumes empty: "mem_inv m" "mem_regions m = []" "pml4 m = 0" and A: "valloc_ok A" "valloc_zeroed A"
    and ok: "hv_regs_ok H rg vc" and msr: "hv_msr_ok H rg vc"
    and ret: "main_create H A u m = Some (Inr m1)" and f: "failures m1 = failures m"
  shows "boot_inv m1" and "phys_top (mem_regions m1) \<le> 65 * 4096"
    and "(x, v) \<in> set reg_setup \<Longrightarrow> rg (world m1) x = v"
    and "peek (gbyte m1) 0 32 = concat (map bytes64 gdt_entries)"
    and "peek (gbyte m1) 0x6FFC 4 = take 4 (bytes64 (pml4_gpa m1))"
proof -
  obtain w0 m2 w1 where init: "vm_mem_init H A u (m\<lparr>world := w0\<rparr>) (ucast CONF_INIT_NUM_PAGES) = Some (0, m2)"
    and su: "vcpu_setup_ia32 H (m2\<lparr>world := w1\<rparr>) = Some (0, m1)"
    using ret by (auto simp: main_create_def Let_def split: Option.bind_splits prod.splits if_splits)
  have s0: "same_memory m (m\<lparr>world := w0\<rparr>)" and s1: "same_memory m2 (m2\<lparr>world := w1\<rparr>)"
    by (auto simp: same_memory_def)
  have e: "mem_inv (m\<lparr>world := w0\<rparr>)" "mem_regions (m\<lparr>world := w0\<rparr>) = []" "pml4 (m\<lparr>world := w0\<rparr>) = 0"
    using empty same_memoryD(1) [OF s0] by simp_all
  let ?n = "ucast CONF_INIT_NUM_PAGES :: u32"
  have n: "unat ?n = 16" "init_room ?n"
    by (simp_all add: CONF_INIT_NUM_PAGES_def init_room_def)
  have fm: "failures m2 = failures (m\<lparr>world := w0\<rparr>)"
    using f vcpu_setup_failures [OF su] by simp
  note i = vm_mem_init_ok [OF e A n(2) init fm, unfolded n(1)]
  have lows: "gbyte m2 x \<noteq> None \<and> \<not> table_byte m2 x" if "low x" for x
    using i(4) i(6,7) [of "unat x"] that by (simp add: low_def tbyte_def)
  then have inv2: "boot_inv m2"
    unfolding boot_inv_def using i(2-4) i(8) by simp
  note k1 = same_memoryD [OF s1]
  have inv1: "mem_inv (m2\<lparr>world := w1\<rparr>)"
    using inv2 k1(1) by (simp add: boot_inv_def)
  have av: "avail (gbyte (m2\<lparr>world := w1\<rparr>)) 0 32" "avail (gbyte (m2\<lparr>world := w1\<rparr>)) 0x6FFC 4"
    unfolding k1(2) by (rule low_avail [OF inv2]; simp)+
  obtain r m3 where s: "vcpu_setup_ia32 H (m2\<lparr>world := w1\<rparr>) = Some (r, m3)" "mem_inv m3"
    and b: "gbyte m3 = poke (poke (gbyte (m2\<lparr>world := w1\<rparr>)) 0 (concat (map bytes64 gdt_entries)))
      0x6FFC (take 4 (bytes64 (pml4_gpa (m2\<lparr>world := w1\<rparr>))))"
    and t: "\<forall>x v. (x, v) \<in> set reg_setup \<longrightarrow> rg (world m3) x = v"
    and sm: "same_memory (m2\<lparr>world := w1, heap := heap m3\<rparr>) m3"
    by (rule vcpu_setup_ia32_ok [OF inv1 ok msr av])
  have m3: "m3 = m1"
    using s su by simp
  note k = same_memoryD [OF sm, unfolded m3, simplified]
  note bytes = setup_bytes [OF b [unfolded k1(2,3) m3]]
  show "(x, v) \<in> set reg_setup \<Longrightarrow> rg (world m1) x = v"
    using t m3 by simp
  show "peek (gbyte m1) 0 32 = concat (map bytes64 gdt_entries)"
    "peek (gbyte m1) 0x6FFC 4 = take 4 (bytes64 (pml4_gpa m1))"
    using bytes(1,2) k(3) by simp_all
  have out: "gbyte m1 x = gbyte m2 x" if "\<not> low x" for x
    using bytes(3) [of x] that in_block_low [of 0 32 x] in_block_low [of "0x6FFC" 4 x] by auto
  have fr: "frame low m2 m1"
  proof (rule frame_of_bytes)
    show "gbyte m1 x \<noteq> None" if "gbyte m2 x \<noteq> None" for x
      using b avail_poke that unfolding k1(2) m3 by (metis avail_Suc avail_0)
  qed (rule out)
  show "boot_inv m1"
    by (rule boot_inv_write(1) [OF inv2 _ fr]) (use s(2) m3 k in simp_all)
  show "phys_top (mem_regions m1) \<le> 65 * 4096"
    using i(9) k by simp
qed

text \<open>\<open>main_load\<close> without a plugin: the kernel in the first pages, the executable mapped.\<close>

lemma load_raw_boot:
  assumes inv: "boot_inv m" and F: "files_ok F content fd_file"
    and k: "content p = Some ks" "length ks \<le> 0x8000"
    and mmap: "\<forall>h f. snd h = heap m \<longrightarrow> fst (fo_mmap F h (of_nat (length ks)) False f) \<noteq> -1"
    and ret: "load_raw F u m (Some p) CONF_START_ADDR = Some (0, m')"
  shows "boot_inv m'" and "host_step m m'"
    and "i < length ks \<Longrightarrow> gbyte m' (0x8000 + of_nat i) = Some (ks ! i)"
    and "\<not> in_block 0x8000 (length ks) x \<Longrightarrow> gbyte m' x = gbyte m x"
proof -
  have small: "length ks \<le> INT_MAX" "length ks \<le> 2 ^ 64"
    using k(2) by (simp_all add: INT_MAX_def)
  obtain r m1 where run: "load_raw F u m (Some p) CONF_START_ADDR = Some (r, m1)" "mem_inv m1" "host_step m m1"
    and c: "r = 0 \<Longrightarrow> gbyte m1 = poke (gbyte m) CONF_START_ADDR ks"
    using load_raw_run [OF boot_invD(1) [OF inv] F k(1) small(1) mmap, where u = u and gpa = CONF_START_ADDR]
    by (elim exE conjE) (rule that, auto)
  from run(1) ret have m1: "m1 = m'" "r = 0"
    by simp_all
  have b: "gbyte m' = poke (gbyte m) 0x8000 ks"
    using c m1 by (simp add: CONF_START_ADDR_def)
  show step: "host_step m m'"
    using run(3) m1 by simp
  show out: "gbyte m' x = gbyte m x" if "\<not> in_block 0x8000 (length ks) x" for x
    unfolding b using that small(2) by (rule poke_outside)
  have at: "peek (gbyte m') 0x8000 (length ks) = ks"
    unfolding b using peek_poke_same [OF small(2), of "length ks"] by simp
  have "unat (0x8000 :: u64) + length ks \<le> 0x10000"
    using k(2) by simp
  then have inl: "in_block 0x8000 (length ks) x \<Longrightarrow> low x" for x
    by (rule in_block_low [rotated])
  have fr: "frame low m m'"
  proof (rule frame_of_bytes)
    show "gbyte m' x = gbyte m x" if "\<not> low x" for x
      using that inl by (intro out) blast
    show "gbyte m' x \<noteq> None" if "gbyte m x \<noteq> None" for x
      unfolding b using that avail_poke [of "gbyte m" x 1] by (simp add: avail_def)
  qed
  show inv': "boot_inv m'"
    by (rule boot_inv_write(1) [OF inv _ fr]) (use run(2) m1 host_stepD(2,3) [OF step] in simp_all)
  show "gbyte m' (0x8000 + of_nat i) = Some (ks ! i)" if i: "i < length ks"
  proof -
    have "in_block 0x8000 (length ks) (0x8000 + of_nat i)"
      using i small(2) by (rule in_blockI)
    then have "gbyte m' (0x8000 + of_nat i) \<noteq> None"
      by (intro boot_invD(6) [OF inv'] inl)
    moreover have "peek (gbyte m') 0x8000 (length ks) ! i = the (gbyte m' (0x8000 + of_nat i))"
      using i by (simp add: peek_def)
    ultimately show ?thesis
      using at by auto
  qed
qed

lemma vpage_app:
  assumes "0x100000000 + 4096 * n \<le> (2 :: nat) ^ 48" "i < n"
  shows "vpage (0x100000000 + of_nat (4096 * i)) = 0x100000 + i"
  using assms by (subst vpage_add) (simp_all add: page_aligned_def)

lemma app_page_mapped:
  assumes virt: "0x100000000 + 4096 * n \<le> (2 :: nat) ^ 48" and i: "i < 4096 * n"
  shows "map_pages f 0x100000000 0x100000000 n (vpage (0x100000000 + of_nat i)) \<noteq> 0"
proof -
  have al: "page_aligned (0x100000000 :: u64)" "unat (0x100000000 :: u64) = 0x100000000"
    by (simp_all add: page_aligned_def)
  have "i < 2 ^ 48"
    using i virt by simp
  then have "vpage (0x100000000 + of_nat i) = vpage (0x100000000 + of_nat (4096 * (i div 4096)))"
    using al by (intro page_split(1)) simp_all
  moreover have "i div 4096 < n"
    using i by (simp add: less_mult_imp_div_less mult.commute)
  ultimately show ?thesis
    using map_pages_at [OF al(1) al(1), of n "i div 4096" f] virt by (simp add: al link_to_nonzero)
qed

text \<open>The executable: its pages, its bytes, its entry point; the first pages do not change.\<close>

definition app_mapped :: "('w, 'z) machine_scheme \<Rightarrow> u8 list \<Rightarrow> bool" where
  "app_mapped m bs \<longleftrightarrow> (\<forall>i < length bs. gbyte m (0x100000000 + of_nat i) = Some (bs ! i)
     \<and> pte m (vpage (0x100000000 + of_nat i)) \<noteq> 0
     \<and> (\<forall>e. gva_to_gpa e m (0x100000000 + of_nat i) = Some (0x100000000 + of_nat i)))"

lemma load_mach_obj_boot:
  assumes inv: "boot_inv m" and top: "phys_top (mem_regions m) \<le> 65 * 4096"
    and A: "valloc_ok A" "valloc_zeroed A" and mp: "hv_map_ok H rg"
    and F: "files_ok F content fd_file" and bs: "content p = Some bs"
    and opens: "\<forall>h. fst (fo_open F h p) \<noteq> -1 \<and> 0 \<le> sint (fst (fo_stat F h p (u_size u)))"
    and mmap: "\<forall>h f. snd h = heap m \<longrightarrow> fst (fo_mmap F h (of_nat (length bs)) True f) \<noteq> -1"
    and fits: "0x100000000 + whole_pages (length bs) \<le> 2 ^ 48"
    and ret: "load_mach_obj F M H A u m (Some p) e0 = Some (0, e, m')" and f: "failures m' = failures m"
  shows "boot_inv m'" and "app_mapped m' bs" and "rg (world m') = rg (world m)" and "pml4_gpa m' = pml4_gpa m"
    and "low x \<Longrightarrow> gbyte m' x = gbyte m x"
    and "\<exists>r ep s. read_entry_point_cmd M (malloc_null A) (u_magic u)
          \<lparr>s_bytes = bs, s_pos = 0, s_callocs = calls m, s_live = 0, s_log = []\<rparr> (u_entry_point u) = Some (r, ep, s)
        \<and> e = (if r = 0 then ep_entryoff M ep + 0x100000000 else e0)"
proof -
  let ?n = "file_pages (of_nat (length bs))" and ?a = "0x100000000 :: u64"
  obtain r ep s o1 hva h m1 where rd: "read_entry_point_cmd M (malloc_null A) (u_magic u)
      \<lparr>s_bytes = bs, s_pos = 0, s_callocs = calls m, s_live = 0, s_log = []\<rparr> (u_entry_point u) = Some (r, ep, s)"
    "e = (if r = 0 then ep_entryoff M ep + 0x100000000 else e0)"
    and map: "mapped hva (length bs) bs (heap m) (snd h)"
    and pages: "unat ?n * 4096 = whole_pages (length bs)"
    and r1: "map_gpa H A (set_host h (m\<lparr>os := o1, calls := s_callocs s\<rparr>)) ?a ?n hva = (0, m1)"
    and r2: "map_gva H A (u_map u) m1 ?a ?n ?a = Some (0, m')"
    using load_mach_obj_run [OF F bs opens mmap ret] by metis
  let ?m0 = "m\<lparr>os := o1, calls := s_callocs s\<rparr>"
  note same = os_calls_memory [where m = m and s = o1 and c = "s_callocs s"]
  have al: "page_aligned ?a" "unat ?a = 0x100000000"
    by (simp_all add: page_aligned_def)
  have m0: "mem_inv ?m0" "pt_inv ?m0" "failures m' = failures ?m0" "mapped hva (length bs) bs (heap ?m0) (snd h)"
    using boot_invD(1,3) [OF inv] f map by (simp_all add: same)
  have top0: "unat ?a + whole_pages (length bs) \<le> 2 ^ 48"
    using fits by simp
  have room0: "max (phys_top (mem_regions ?m0)) (unat ?a + whole_pages (length bs)) + (3 * unat ?n + 1) * 4096 \<le> 2 ^ 52"
    using fits top pages unfolding al by simp
  note mf = map_file [OF m0(1,2) A m0(4) pages al(1) top0 room0 r1 r2 m0(3), unfolded same]
  note tb = boot_invD(8) [OF inv]
  show "low x \<Longrightarrow> gbyte m' x = gbyte m x"
    using mf(5) boot_invD(6,7) [OF inv] unfolding frame_def same tb by blast
  show pml4: "pml4_gpa m' = pml4_gpa m"
    using mf(10) boot_invD(4) [OF inv] by simp
  show "rg (world m') = rg (world m)"
    using map_gpa_carries [OF mp r1] map_gva_carries [OF mp r2] by (simp add: carries_def)
  have virt: "0x100000000 + 4096 * unat ?n \<le> (2 :: nat) ^ 48"
    using fits pages by simp
  have pte1: "pte m1 = pte m"
  proof -
    have byte: "frame (\<lambda>x. False) m m1"
      using mf(9) by (simp add: frame_def same)
    show ?thesis
      using mf(11,12) by (intro frame_pte [OF boot_invD(2) [OF inv] byte]) simp_all
  qed
  have pte: "pte m' v = pte m v" if "v < 16" for v
    unfolding mf(8) pte1 using that virt by (intro map_pages_other) (subst vpage_app; simp)
  have "pt_ok m'"
    using mf(2,7) by (simp add: pt_inv_def)
  moreover have "gbyte m' x \<noteq> None \<and> \<not> table_byte m' x" if "low x" for x
    using mf(5,6,7) boot_invD(6,7) [OF inv that] unfolding frame_def same tb tbyte_def by blast
  ultimately show inv': "boot_inv m'"
    using mf(1,7) pte boot_invD(5) [OF inv] by (simp add: boot_inv_def)
  show "app_mapped m' bs"
    unfolding app_mapped_def
  proof (intro allI impI conjI)
    fix i assume i: "i < length bs"
    then have i4: "i < 4096 * unat ?n"
      using whole_pages_ge [of "length bs"] pages by simp
    show "gbyte m' (?a + of_nat i) = Some (bs ! i)" "gva_to_gpa e m' (?a + of_nat i) = Some (?a + of_nat i)" for e
      using mf(3,4) [OF i] by simp_all
    show "pte m' (vpage (?a + of_nat i)) \<noteq> 0"
      unfolding mf(8) using virt i4 by (rule app_page_mapped)
  qed
  show "\<exists>r ep s. read_entry_point_cmd M (malloc_null A) (u_magic u)
          \<lparr>s_bytes = bs, s_pos = 0, s_callocs = calls m, s_live = 0, s_log = []\<rparr> (u_entry_point u) = Some (r, ep, s)
        \<and> e = (if r = 0 then ep_entryoff M ep + 0x100000000 else e0)"
    using rd by blast
qed

end
