(* ===== verification/MainSafe.thy ===== *)
theory MainSafe
  imports Boot
begin

text \<open>
  No stage of \<open>main\<close> runs into undefined behaviour: each returns, on every path through
  failing calls, and leaves the invariant of guest memory in place. What a stage that only
  writes to memory leaves alone is \<open>keeps\<close>; the stages that add regions have a bound on them.
\<close>

section \<open>Stages that write to memory\<close>

lemma keeps_world [simp]: "keeps m (m'\<lparr>world := w\<rparr>) \<longleftrightarrow> keeps m m'"
  by (simp add: keeps_def)

lemma host_step_keeps: "host_step m m' \<Longrightarrow> keeps m m'"
  by (simp add: keeps_def host_stepD)

lemma keeps_step: "keeps m m1 \<Longrightarrow> mem_inv m \<Longrightarrow> (mem_inv m1 \<Longrightarrow> \<exists>m'. P m' \<and> keeps m1 m') \<Longrightarrow> \<exists>m'. P m' \<and> keeps m m'"
  by (meson keeps_mem_inv keeps_trans)

lemma vm_mem_write_keeps:
  assumes "mem_inv m" "length bs \<le> INT_MAX"
  obtains n m' where "vm_mem_write m a bs = Some (n, m')" "keeps m m'"
proof -
  obtain m' where w: "vm_mem_write m a bs = Some (span (gbyte m) a (length bs), m')"
    using gm.write_law [OF assms, of a] by blast
  obtain h where "m' = m\<lparr>heap := h\<rparr>" "dom h = dom (heap m)"
    using vm_mem_write_frame [OF assms w] .
  then have "keeps m m'"
    by (simp add: keeps_def)
  with w that show thesis by blast
qed

lemma len64 [simp]: "length (bytes64 v) \<le> INT_MAX"
  by (simp add: INT_MAX_def)

lemma write_words_keeps: "mem_inv m \<Longrightarrow> \<exists>m'. write_words m a vs = Some m' \<and> keeps m m'"
proof (induction vs arbitrary: m a)
  case Nil
  then show ?case by simp
next
  case (Cons v vs)
  obtain n m1 where w: "vm_mem_write m a (bytes64 v) = Some (n, m1)" "keeps m m1"
    using vm_mem_write_keeps [OF Cons.prems len64] .
  show ?case
    using keeps_step [OF w(2) Cons.prems Cons.IH] w(1) by simp
qed

lemma enable_native_msrs_memory: "enable_native_msrs H msrs m = (failed, m') \<Longrightarrow> same_memory m m'"
proof (induction msrs arbitrary: m)
  case Nil
  then show ?case by simp
next
  case (Cons msr msrs)
  obtain e w where "hv_vcpu_enable_native_msr H (world m) msr True = (e, w)"
    by fastforce
  moreover have "same_memory m (m\<lparr>world := w\<rparr>)"
    by (rule same_memoryI) simp
  ultimately show ?case
    using Cons.prems Cons.IH [of "m\<lparr>world := w\<rparr>"]
    by (cases "e = 0") (auto simp: Let_def intro: same_memory_trans)
qed

lemma vcpu_setup_keeps:
  assumes inv: "mem_inv m"
  obtains r m' where "vcpu_setup_ia32 H m = Some (r, m')" "keeps m m'"
proof -
  define m0 where "m0 = write_fields H vmcs_setup m"
  have k0: "keeps m m0"
    unfolding m0_def by (rule keeps_same_memory [OF write_fields_same_memory])
  obtain m1 where m1: "write_words m0 gdt_gpa gdt_entries = Some m1" "keeps m0 m1"
    using write_words_keeps [OF keeps_mem_inv [OF k0 inv]] by blast
  define m2 where "m2 = write_fields H vmcs_setup_tables m1"
  obtain failed m3 where m3: "enable_native_msrs H native_msrs m2 = (failed, m3)"
    by fastforce
  have k3: "keeps m m3"
    using k0 m1(2) keeps_same_memory [OF write_fields_same_memory [of m1 H vmcs_setup_tables]]
      keeps_same_memory [OF enable_native_msrs_memory [OF m3]] unfolding m2_def by (blast intro: keeps_trans)
  have "length (take 4 (bytes64 (get_pml4_gpa m3))) \<le> INT_MAX"
    by (simp add: INT_MAX_def)
  then obtain n m4 where m4: "vm_mem_write m3 (CONF_STACK_ADDR - 4) (take 4 (bytes64 (get_pml4_gpa m3))) = Some (n, m4)"
    "keeps m3 m4"
    using vm_mem_write_keeps [OF keeps_mem_inv [OF k3 inv]] by blast
  have "vcpu_setup_ia32 H m = Some (if failed then 1 else 0, write_regs H reg_setup m4)"
    using m1(1) m3 m4(1) by (simp add: vcpu_setup_ia32_def Let_def flip: m0_def m2_def)
  moreover have "keeps m (write_regs H reg_setup m4)"
    using k3 m4(2) keeps_same_memory [OF write_regs_same_memory] by (blast intro: keeps_trans)
  ultimately show thesis
    using that by blast
qed

lemma setup_args_keeps:
  "mem_inv m \<Longrightarrow> \<forall>s \<in> set ss. length s < INT_MAX \<Longrightarrow> \<exists>ok m'. setup_args m av ar ss = Some (ok, m') \<and> keeps m m'"
proof (induction ss arbitrary: m av ar)
  case Nil
  then show ?case by (auto intro: exI [of _ True])
next
  case (Cons s ss)
  have len: "length (c_string s) \<le> INT_MAX"
    using Cons.prems(2) by (simp add: length_c_string)
  obtain n m1 where m1: "vm_mem_write m av (bytes64 ar) = Some (n, m1)" "keeps m m1"
    using vm_mem_write_keeps [OF Cons.prems(1) len64] .
  note inv1 = keeps_mem_inv [OF m1(2) Cons.prems(1)]
  obtain k m2 where m2: "vm_mem_write m1 ar (c_string s) = Some (k, m2)" "keeps m1 m2"
    using vm_mem_write_keeps [OF inv1 len] .
  obtain ok m3 where m3: "setup_args m2 (av + 8) (ar + of_nat (length (c_string s))) ss = Some (ok, m3)" "keeps m2 m3"
    using Cons.IH [OF keeps_mem_inv [OF m2(2) inv1]] Cons.prems(2) by fastforce
  show ?case
    using m1 m2 m3 by (auto intro: keeps_trans)
qed

lemma push64_keeps:
  assumes inv: "mem_inv m"
  obtains r m' where "push64 H m v = Some (r, m')" "keeps m m'"
proof -
  obtain n m1 where "vm_mem_write m (rreg H m HV_X86_RSP - of_nat (length (bytes64 v))) (bytes64 v) = Some (n, m1)"
    "keeps m m1"
    using vm_mem_write_keeps [OF inv len64] .
  moreover obtain err w where "hv_vcpu_write_register H (world m1) HV_X86_RSP
      (rreg H m HV_X86_RSP - of_nat (length (bytes64 v))) = (err, w)"
    by fastforce
  ultimately show thesis
    by (intro that [of "if n \<noteq> 8 \<or> err \<noteq> 0 then -1 else 0" "if n \<noteq> 8 then m1 else m1\<lparr>world := w\<rparr>"])
      (simp_all add: push64_def push_def)
qed

lemma push_start_keeps:
  assumes inv: "mem_inv m"
  obtains m' where "push_start H argc e m = Some m'" "keeps m m'"
proof -
  obtain r1 m1 where m1: "push64 H m CONF_ARGV_ADDR = Some (r1, m1)" "keeps m m1"
    using push64_keeps [OF inv] .
  note i1 = keeps_mem_inv [OF m1(2) inv]
  obtain r2 m2 where m2: "push64 H m1 (of_nat argc) = Some (r2, m2)" "keeps m1 m2"
    using push64_keeps [OF i1] .
  obtain r3 m3 where m3: "push64 H m2 e = Some (r3, m3)" "keeps m2 m3"
    using push64_keeps [OF keeps_mem_inv [OF m2(2) i1]] .
  show thesis
    using m1 m2 m3 by (intro that [of m3]) (auto simp: push_start_def intro: keeps_trans)
qed

section \<open>Creating the machine\<close>

lemma vm_mem_init_defined:
  fixes m :: "('w, 'o, 'z) process_scheme"
  assumes inv: "mem_inv m" "mem_regions m = []" and A: "valloc_ok A"
  shows "\<exists>r m'. vm_mem_init H A u m (ucast CONF_INIT_NUM_PAGES) = Some (r, m') \<and> mem_inv m'
    \<and> phys_top (mem_regions m') \<le> 65 * 4096 \<and> plugin_table m' = plugin_table m"
proof -
  have n: "ucast (ucast CONF_INIT_NUM_PAGES :: u32) = (16 :: u64)"
    by (simp add: CONF_INIT_NUM_PAGES_def)
  have fits: "fits m 16"
    using inv(2) by (simp add: fits_def phys_top_def)
  obtain x m1 where al: "vm_mem_alloc H A m 16 = (x, m1)"
    by fastforce
  have s1: "mem_inv m1" "phys_top (mem_regions m1) \<le> 16 * 4096"
    using safe_alloc [OF inv(1) A fits al] inv(2) by (simp_all add: safe_step_def phys_top_def)
  have p1: "plugin_table m1 = plugin_table m"
    by (rule carries_plugin [OF vm_mem_alloc_carries [OF hv_map_ok_unit al]])
  have room: "table_room m1 16"
    using s1(2) by (simp add: table_room_def)
  obtain r m2 where mg: "map_gva H A u m1 0 16 0 = Some (r, m2)" "safe_step 49 m1 m2"
    using map_gva_safe_total [OF s1(1) A room, of H u 0 0] by auto
  have s2: "mem_inv m2" "phys_top (mem_regions m2) \<le> 65 * 4096"
    using mg(2) s1(2) by (simp_all add: safe_step_def)
  have p2: "plugin_table m2 = plugin_table m"
    using carries_plugin [OF map_gva_carries [OF hv_map_ok_unit mg(1)]] p1 by simp
  show ?thesis
    using al mg(1) s1 s2 p1 p2 unfolding vm_mem_init_def n
    by (cases x) (auto split: if_splits)
qed

lemma main_create_defined:
  fixes m :: "('w, 'o, 'z) process_scheme"
  assumes inv: "mem_inv m" "mem_regions m = []" and A: "valloc_ok A"
  obtains x where "main_create H A u m = Some x"
    "\<And>m1. x = Inr m1 \<Longrightarrow> mem_inv m1 \<and> phys_top (mem_regions m1) \<le> 65 * 4096 \<and> plugin_table m1 = plugin_table m"
proof -
  obtain err w where vm: "hv_vm_create H (world m) = (err, w)"
    by fastforce
  define m0 where "m0 = m\<lparr>world := w\<rparr>"
  have m0: "mem_inv m0" "mem_regions m0 = []" "plugin_table m0 = plugin_table m"
    using inv same_memoryD(1) [OF same_memoryI [OF m0_def]] by (simp_all add: m0_def)
  show thesis
  proof (cases "err = 0")
    case False
    with vm show thesis
      by (intro that [of "Inl (vm_destroy H 1 m0)"]) (simp_all add: main_create_def Let_def m0_def)
  next
    case True
    have init: "\<exists>r m2. vm_mem_init H A u m0 (ucast CONF_INIT_NUM_PAGES) = Some (r, m2) \<and> mem_inv m2
        \<and> phys_top (mem_regions m2) \<le> 65 * 4096 \<and> plugin_table m2 = plugin_table m"
      by (rule vm_mem_init_defined [OF m0(1,2) A, unfolded m0(3)])
    then obtain r m2 where m2: "vm_mem_init H A u m0 (ucast CONF_INIT_NUM_PAGES) = Some (r, m2)" "mem_inv m2"
        "phys_top (mem_regions m2) \<le> 65 * 4096" "plugin_table m2 = plugin_table m"
      by blast
    obtain err' w' where vc: "hv_vcpu_create H (world m2) = (err', w')"
      by fastforce
    have k2: "keeps m2 (m2\<lparr>world := w'\<rparr>)"
      by simp
    obtain r' m3 where m3: "vcpu_setup_ia32 H (m2\<lparr>world := w'\<rparr>) = Some (r', m3)" "keeps (m2\<lparr>world := w'\<rparr>) m3"
      using vcpu_setup_keeps [OF keeps_mem_inv [OF k2 m2(2)]] .
    have k3: "keeps m2 m3"
      using k2 m3(2) by (rule keeps_trans)
    have good: "mem_inv m3 \<and> phys_top (mem_regions m3) \<le> 65 * 4096 \<and> plugin_table m3 = plugin_table m"
      using keeps_mem_inv [OF k3 m2(2)] k3 m2(3,4) by (simp add: keeps_def)
    have "main_create H A u m = Some (if r \<noteq> 0 then Inl (mem_destroy H 1 m2)
      else if err' \<noteq> 0 then Inl (vcpu_destroy H 1 (m2\<lparr>world := w'\<rparr>))
      else if r' \<noteq> 0 then Inl (vcpu_destroy H 1 m3) else Inr m3)"
      using vm True m2(1) vc m3(1) by (simp add: main_create_def Let_def m0_def)
    then show thesis
      by (rule that) (use good in \<open>auto split: if_splits\<close>)
  qed
qed

section \<open>Loading\<close>

text \<open>
  The dynamic loader and the plugin's initialisation leave the memory that the program has
  allocated as it is, and the callbacks that they install keep the contract of the calls
  that they stand for.
\<close>

definition dl_ok :: "'o dl_ops \<Rightarrow> bool" where
  "dl_ok D \<longleftrightarrow> (\<forall>h p. touches 0 0 h (snd (dlopen D h p))) \<and> (\<forall>h p. touches 0 0 h (dlclose D h p))
     \<and> (\<forall>h p f g ops. dlsym D h p = Some f \<longrightarrow> touches 0 0 g (snd (snd (f g ops)))
          \<and> (plugin_ok ops \<longrightarrow> plugin_ok (fst (snd (f g ops)))))"

lemma dl_okD:
  assumes "dl_ok D"
  shows "touches 0 0 h (snd (dlopen D h p))" and "touches 0 0 h (dlclose D h q)"
    and "dlsym D h q = Some f \<Longrightarrow> touches 0 0 g (snd (snd (f g ops)))"
    and "dlsym D h q = Some f \<Longrightarrow> plugin_ok ops \<Longrightarrow> plugin_ok (fst (snd (f g ops)))"
  using assms unfolding dl_ok_def by blast+

text \<open>A step that may also change the table of callbacks.\<close>

definition keeps_memory :: "('w, 'o, 'z) process_scheme \<Rightarrow> ('w, 'o, 'z) process_scheme \<Rightarrow> bool" where
  "keeps_memory m m' \<longleftrightarrow> dom (heap m') = dom (heap m) \<and> mem_regions m' = mem_regions m
     \<and> (plugin_ok (plugin_table m) \<longrightarrow> plugin_ok (plugin_table m'))"

lemma keeps_memory_trans: "keeps_memory m m1 \<Longrightarrow> keeps_memory m1 m2 \<Longrightarrow> keeps_memory m m2"
  by (simp add: keeps_memory_def)

lemma keeps_memory_inv: "keeps_memory m m' \<Longrightarrow> mem_inv m \<Longrightarrow> mem_inv m'"
  by (auto simp: keeps_memory_def mem_inv_def backed_def)

lemma keeps_imp_memory: "keeps m m' \<Longrightarrow> keeps_memory m m'"
  by (simp add: keeps_def keeps_memory_def)

lemma keeps_memory_set_host: "touches 0 0 (host m) h \<Longrightarrow> keeps_memory m (set_host h m)"
  by (simp add: keeps_memory_def touches_def host_def)

lemma keeps_memory_table:
  "keeps_memory m m' \<Longrightarrow> plugin_ok (plugin_table m') \<longrightarrow> plugin_ok ops \<Longrightarrow> keeps_memory m (m'\<lparr>plugin_table := ops\<rparr>)"
  by (simp add: keeps_memory_def)

lemma load_plugin_keeps:
  fixes m :: "('w, 'o, 'z) process_scheme"
  assumes D: "dl_ok D"
  shows "keeps_memory m (snd (load_plugin D m path))"
proof (cases path)
  case None
  then show ?thesis by (simp add: load_plugin_def keeps_memory_def)
next
  case (Some p)
  obtain q h where o1: "dlopen D (host m) p = (q, h)"
    by (metis surj_pair)
  define m1 where "m1 = set_host h m"
  have k1: "keeps_memory m m1"
    using dl_okD(1) [OF D, of "host m" p] o1 by (simp add: m1_def keeps_memory_set_host)
  have host1: "host m1 = h" "plugin_table m1 = plugin_table m"
    by (simp_all add: m1_def)
  have close: "keeps_memory m2 (set_host (dlclose D (host m2) q) m2)" for m2 :: "('w, 'o, 'z) process_scheme"
    by (rule keeps_memory_set_host [OF dl_okD(2) [OF D]])
  show ?thesis
  proof (cases "q = 0")
    case True
    with Some o1 k1 show ?thesis by (simp add: load_plugin_def m1_def)
  next
    case False
    show ?thesis
    proof (cases "dlsym D h q")
      case None
      with Some o1 False keeps_memory_trans [OF k1 close [of m1]] host1 show ?thesis
        by (simp add: load_plugin_def flip: m1_def)
    next
      case sym: (Some f)
      obtain r ops h' where f: "f h (plugin_table m) = (r, ops, h')"
        by (metis surj_pair)
      define m2 where "m2 = (set_host h' m1)\<lparr>plugin_table := ops\<rparr>"
      have "touches 0 0 (host m1) h'" "plugin_ok (plugin_table m1) \<longrightarrow> plugin_ok ops"
        using dl_okD(3,4) [OF D sym, where g = h and ops = "plugin_table m"] f host1 by simp_all
      then have "keeps_memory m1 m2"
        unfolding m2_def by (intro keeps_memory_table keeps_memory_set_host) simp_all
      with k1 have k2: "keeps_memory m m2"
        by (rule keeps_memory_trans)
      show ?thesis
        using Some o1 False sym f k2 keeps_memory_trans [OF k2 close [of m2]] host1
        by (simp add: load_plugin_def flip: m1_def m2_def)
    qed
  qed
qed

text \<open>What loading the executable needs of the reader.\<close>

definition image_readable :: "macho_headers \<Rightarrow> host_ops \<Rightarrow> u32 \<Rightarrow> u8 list \<Rightarrow> bool" where
  "image_readable M A u bs \<longleftrightarrow> (\<forall>k. \<not> malloc_null A k) \<and> macho_headers_ok M
     \<and> (let magic = overlay bytes32 word32 u (take 4 bs)
        in unat (header_ncmds M magic (file_buf bs 0 (header_size M magic))) \<le> INT_MAX)"

lemma image_readableD:
  assumes "image_readable M A u bs"
  obtains r ep s where "read_entry_point_cmd M (malloc_null A) u
    \<lparr>s_bytes = bs, s_pos = 0, s_callocs = c, s_live = 0, s_log = []\<rparr> e = Some (r, ep, s)"
proof -
  let ?f = "\<lparr>s_bytes = bs, s_pos = 0, s_callocs = c, s_live = 0, s_log = []\<rparr>"
  have "\<exists>r b f'. read_entry_point_cmd M (malloc_null A) u ?f e = Some (r, b, f') \<and> s_bytes f' = s_bytes ?f
    \<and> (r = 1 \<and> b = e \<and> s_live f' = s_live ?f
       \<or> \<not> is_fat M (overlay bytes32 word32 u (take 4 bs)) \<and> r = 0 \<and> s_live f' = s_live ?f + 2)"
    using assms by (intro read_entry_point_cmd_runs) (simp_all add: image_readable_def Let_def)
  with that show thesis by blast
qed

text \<open>The two mappings at the end of \<open>load_mach_obj\<close>.\<close>

lemma map_file_defined:
  assumes inv: "mem_inv m" and A: "valloc_ok A"
    and map: "mapped hva (length bs) bs (heap m) (snd h)" and pages: "unat np * 4096 = whole_pages (length bs)"
    and al: "page_aligned gpa" and top: "unat gpa + whole_pages (length bs) < 2 ^ 64"
    and room: "max (phys_top (mem_regions m)) (unat gpa + whole_pages (length bs)) + (3 * unat np + 1) * 4096 \<le> 2 ^ 52"
    and g: "map_gpa H A (set_host h m) gpa np hva = (q, m1)"
  shows "mem_inv m1" and "plugin_table m1 = plugin_table m"
    and "q = 0 \<Longrightarrow> \<exists>r m2. map_gva H A v m1 gpa np gpa = Some (r, m2) \<and> mem_inv m2 \<and> plugin_table m2 = plugin_table m"
proof -
  have inv5: "mem_inv (set_host h m)"
    by (rule set_host_memory(1) [OF inv mapped_keeps_guest [OF inv map]])
  show p1: "plugin_table m1 = plugin_table m"
    using carries_plugin [OF map_gpa_carries [OF hv_map_ok_unit g]] by simp
  note good = map_gpa_file [OF inv map pages al top]
  show "mem_inv m1"
  proof (cases "q = 0")
    case True
    with good(1) g show ?thesis by simp
  next
    case False
    then show ?thesis
      using map_gpa_error(1,2) [OF g] inv5 by (simp add: mem_inv_def backed_def)
  qed
  show "\<exists>r m2. map_gva H A v m1 gpa np gpa = Some (r, m2) \<and> mem_inv m2 \<and> plugin_table m2 = plugin_table m" if q: "q = 0"
  proof -
    note g0 = g [unfolded q]
    have "table_room m1 np"
      using good(5) [OF g0] room by (simp add: table_room_def)
    then obtain r m2 where v: "map_gva H A v m1 gpa np gpa = Some (r, m2)" "safe_step (3 * unat np + 1) m1 m2"
      using map_gva_safe_total [OF good(1) [OF g0] A] by blast
    then show ?thesis
      using carries_plugin [OF map_gva_carries [OF hv_map_ok_unit v(1)]] p1 by (simp add: safe_step_def)
  qed
qed

lemma load_mach_obj_defined:
  assumes inv: "mem_inv m" and top: "phys_top (mem_regions m) \<le> 65 * 4096" and A: "valloc_ok A"
    and img: "image_readable M A (u_magic u) bs"
    and F: "files_ok F content fd_file" and bs: "content p = Some bs"
    and opens: "\<forall>h. fst (fo_open F h p) \<noteq> -1 \<and> 0 \<le> sint (fst (fo_stat F h p (u_size u)))"
    and mmap: "\<forall>h f. snd h = heap m \<longrightarrow> fst (fo_mmap F h (of_nat (length bs)) True f) \<noteq> -1"
    and fits: "0x100000000 + whole_pages (length bs) \<le> 2 ^ 48"
  obtains r e m' where "load_mach_obj F M H A u m (Some p) e0 = Some (r, e, m')" "mem_inv m'"
    "plugin_table m' = plugin_table m"
proof -
  obtain c h1 where fo: "fo_fopen F (host m) p = (c, h1)" by (metis surj_pair)
  have h1: "snd h1 = heap m"
    using files_fopen [OF F fo] by simp
  show thesis
  proof (cases c)
    case None
    with fo set_host_same(1) [OF h1] inv show thesis
      by (intro that [of "-1" e0 "set_host h1 m"]) (simp_all add: load_mach_obj_def)
  next
    case (Some bs')
    then have c: "c = Some bs"
      using files_fopen [OF F fo] bs by auto
    obtain r ep s where rd: "read_entry_point_cmd M (malloc_null A) (u_magic u)
        \<lparr>s_bytes = bs, s_pos = 0, s_callocs = calls m, s_live = 0, s_log = []\<rparr> (u_entry_point u) = Some (r, ep, s)"
      using image_readableD [OF img] by blast
    define np where "np = file_pages (of_nat (length bs))"
    obtain o1 hva h e where map: "mapped hva (length bs) bs (heap m) (snd h)" and pages: "unat np * 4096 = whole_pages (length bs)"
      and eq: "load_mach_obj F M H A u m (Some p) e0 =
        (let (q, m1) = map_gpa H A (set_host h (m\<lparr>os := o1, calls := s_callocs s\<rparr>)) 0x100000000 np hva
         in if q \<noteq> 0 then Some (-1, e, m1)
            else do { (q, m2) \<leftarrow> map_gva H A (u_map u) m1 0x100000000 np 0x100000000; Some (if q \<noteq> 0 then -1 else 0, e, m2) })"
      by (rule load_mach_obj_eq [OF F bs opens mmap fo [unfolded c] rd np_def refl])
    let ?m0 = "m\<lparr>os := o1, calls := s_callocs s\<rparr>"
    obtain q m1 where g: "map_gpa H A (set_host h ?m0) 0x100000000 np hva = (q, m1)"
      by fastforce
    have pre: "mem_inv ?m0" "mapped hva (length bs) bs (heap ?m0) (snd h)" "page_aligned (0x100000000 :: u64)"
      "unat (0x100000000 :: u64) + whole_pages (length bs) < 2 ^ 64"
      "max (phys_top (mem_regions ?m0)) (unat (0x100000000 :: u64) + whole_pages (length bs)) + (3 * unat np + 1) * 4096 \<le> 2 ^ 52"
      using inv map top fits pages by (simp_all add: os_calls_memory page_aligned_def)
    note mf = map_file_defined [OF pre(1) A pre(2) pages pre(3-5) g]
    show thesis
    proof (cases "q = 0")
      case True
      then obtain r2 m2 where "map_gva H A (u_map u) m1 0x100000000 np 0x100000000 = Some (r2, m2)" "mem_inv m2"
        "plugin_table m2 = plugin_table m"
        using mf(3) [OF True, of "u_map u"] by auto
      with True eq g that show thesis by simp
    next
      case False
      with mf(1,2) eq g that show thesis by simp
    qed
  qed
qed

text \<open>The three loaders in the order of \<open>main\<close>; \<open>mmap\<close> has room for each file.\<close>

definition mmap_room :: "'o file_ops \<Rightarrow> u64 set \<Rightarrow> u8 list \<Rightarrow> bool" where
  "mmap_room F used bs \<longleftrightarrow> (\<forall>h w f. dom (snd h) = used \<longrightarrow> fst (fo_mmap F h (of_nat (length bs)) w f) \<noteq> -1)"

lemma main_load_defined:
  fixes m :: "('w, 'o, 'z) process_scheme"
  assumes inv: "mem_inv m" and top: "phys_top (mem_regions m) \<le> 65 * 4096" and A: "valloc_ok (alloc X)"
    and P: "plugin_ok (plugin_table m)" "dl_ok (dl X)" and F: "files_ok (files X) content fd_file"
    and ks: "content k = Some ks" "length ks \<le> INT_MAX"
    and bs: "content p = Some bs" "0x100000000 + whole_pages (length bs) \<le> 2 ^ 48"
    and img: "image_readable (headers X) (alloc X) (u_magic (u_load u)) bs"
    and opens: "\<forall>h. fst (fo_open (files X) h p) \<noteq> -1 \<and> 0 \<le> sint (fst (fo_stat (files X) h p (u_size (u_load u))))"
    and mmap: "mmap_room (files X) (dom (heap m)) ks" "mmap_room (files X) (dom (heap m)) bs"
  obtains e m' where "main_load X u k plugin p m = Some (e, m')" "mem_inv m'" "plugin_ok (plugin_table m')"
proof -
  have mm1: "\<forall>h f. snd h = heap m \<longrightarrow> fst (fo_mmap (files X) h (of_nat (length ks)) False f) \<noteq> -1"
    using mmap(1) by (simp add: mmap_room_def)
  obtain r1 m1 where m1: "load_raw (files X) (u_raw u) m (Some k) CONF_START_ADDR = Some (r1, m1)" "host_step m m1"
    using load_raw_run [OF inv F ks mm1, where u = "u_raw u" and gpa = CONF_START_ADDR] by blast
  note k1 = keeps_imp_memory [OF host_step_keeps [OF m1(2)]]
  obtain r2 m2 where m2: "(case plugin of None \<Rightarrow> (0, m1) | Some q \<Rightarrow> load_plugin (dl X) m1 (Some q)) = (r2, m2)"
    by fastforce
  have "keeps_memory m1 m2"
  proof (cases plugin)
    case None
    with m2 show ?thesis by (simp add: keeps_memory_def)
  next
    case (Some q)
    with m2 show ?thesis
      using load_plugin_keeps [OF P(2), of m1 "Some q"] by simp
  qed
  with k1 have k2: "keeps_memory m m2"
    by (rule keeps_memory_trans)
  have inv2: "mem_inv m2" "phys_top (mem_regions m2) \<le> 65 * 4096"
    and mm2: "\<forall>h f. snd h = heap m2 \<longrightarrow> fst (fo_mmap (files X) h (of_nat (length bs)) True f) \<noteq> -1"
    using keeps_memory_inv [OF k2 inv] k2 top mmap(2) by (simp_all add: keeps_memory_def mmap_room_def)
  obtain r3 e m3 where m3: "load_mach_obj (files X) (headers X) (hv X) (alloc X) (u_load u) m2 (Some p) (u_entry_gva u)
      = Some (r3, e, m3)" "mem_inv m3" "plugin_table m3 = plugin_table m2"
    by (rule load_mach_obj_defined [OF inv2 A img F bs(1) opens mm2 bs(2)])
  let ?m = "if r1 \<noteq> 0 then m1 else if r2 \<noteq> 0 then m2 else m3"
  have "main_load X u k plugin p m = Some (if r1 = 0 \<and> r2 = 0 \<and> r3 = 0 then Some e else None, ?m)"
    using m1(1) m2 m3(1) by (simp add: main_load_def)
  moreover have "mem_inv ?m" "plugin_ok (plugin_table ?m)"
    using keeps_memory_inv [OF k1 inv] inv2(1) k1 k2 m3(2,3) P(1) by (simp_all add: keeps_memory_def)
  ultimately show thesis
    using that by blast
qed

end
