(* ===== verification/BootProperties.thy ===== *)
theory BootProperties
  imports Boot HvexecProperties MainSafe
begin

text \<open>
  The composition of the stages of \<open>main\<close>: what the guest finds when it is first entered,
  from the behaviour of the memory, the page tables, the virtual CPU, the loader, the Mach-O
  reader and the writers of arguments and stack together.
\<close>

lemma main_load_boot:
  fixes m :: "('w, 'o, 'z) process_scheme"
  assumes inv: "boot_inv m" and top: "phys_top (mem_regions m) \<le> 65 * 4096"
    and A: "valloc_ok (alloc X)" "valloc_zeroed (alloc X)" and mp: "hv_map_ok (hv X) rg"
    and F: "files_ok (files X) content fd_file"
    and ks: "content k = Some ks" "length ks \<le> 0x8000" and bs: "content p = Some bs"
    and opens: "\<forall>h. fst (fo_open (files X) h p) \<noteq> -1 \<and> 0 \<le> sint (fst (fo_stat (files X) h p (u_size (u_load u))))"
    and mmap: "\<forall>h w f. dom (snd h) = dom (heap m) \<longrightarrow> fst (fo_mmap (files X) h (of_nat (length ks)) w f) \<noteq> -1
      \<and> fst (fo_mmap (files X) h (of_nat (length bs)) w f) \<noteq> -1"
    and fits: "0x100000000 + whole_pages (length bs) \<le> 2 ^ 48"
    and ret: "main_load X u k None p m = Some (Some e, m')" and f: "failures m' = failures m"
  shows "boot_inv m'" and "app_mapped m' bs" and "rg (world m') = rg (world m)" and "pml4_gpa m' = pml4_gpa m"
    and "i < length ks \<Longrightarrow> gbyte m' (0x8000 + of_nat i) = Some (ks ! i)"
    and "low x \<Longrightarrow> \<not> in_block 0x8000 (length ks) x \<Longrightarrow> gbyte m' x = gbyte m x"
    and "\<exists>r ep s. read_entry_point_cmd (headers X) (malloc_null (alloc X)) (u_magic (u_load u))
          \<lparr>s_bytes = bs, s_pos = 0, s_callocs = calls m, s_live = 0, s_log = []\<rparr> (u_entry_point (u_load u)) = Some (r, ep, s)
        \<and> e = (if r = 0 then ep_entryoff (headers X) ep + 0x100000000 else u_entry_gva u)"
proof -
  obtain m1 where k: "load_raw (files X) (u_raw u) m (Some k) CONF_START_ADDR = Some (0, m1)"
    and l: "load_mach_obj (files X) (headers X) (hv X) (alloc X) (u_load u) m1 (Some p) (u_entry_gva u) = Some (0, e, m')"
    using ret by (auto simp: main_load_def Let_def split: Option.bind_splits if_splits)
  have mm1: "\<forall>h f. snd h = heap m \<longrightarrow> fst (fo_mmap (files X) h (of_nat (length ks)) False f) \<noteq> -1"
    using mmap by simp
  note lk = load_raw_boot [OF inv F ks mm1 k]
  note st = host_stepD [OF lk(2)]
  have mm2: "\<forall>h f. snd h = heap m1 \<longrightarrow> fst (fo_mmap (files X) h (of_nat (length bs)) True f) \<noteq> -1"
    using mmap st(7) by simp
  have top1: "phys_top (mem_regions m1) \<le> 65 * 4096" and f1: "failures m' = failures m1"
    using top f by (simp_all add: st)
  note lo = load_mach_obj_boot [OF lk(1) top1 A mp F bs opens mm2 fits l f1]
  show "boot_inv m'" "app_mapped m' bs" "rg (world m') = rg (world m)" "pml4_gpa m' = pml4_gpa m"
    using lo(1-4) by (simp_all add: st)
  show "gbyte m' x = gbyte m x" if "low x" "\<not> in_block 0x8000 (length ks) x"
    using lo(5) lk(4) that by simp
  show "gbyte m' (0x8000 + of_nat i) = Some (ks ! i)" if i: "i < length ks"
  proof -
    have "unat (0x8000 :: u64) + length ks \<le> 0x10000"
      using ks(2) by simp
    with i have "low (0x8000 + of_nat i)"
      by (intro in_block_low [OF in_blockI]) simp_all
    with lo(5) lk(3) [OF i] show ?thesis by simp
  qed
  show "\<exists>r ep s. read_entry_point_cmd (headers X) (malloc_null (alloc X)) (u_magic (u_load u))
          \<lparr>s_bytes = bs, s_pos = 0, s_callocs = calls m, s_live = 0, s_log = []\<rparr> (u_entry_point (u_load u)) = Some (r, ep, s)
        \<and> e = (if r = 0 then ep_entryoff (headers X) ep + 0x100000000 else u_entry_gva u)"
    using lo(6) by (simp only: st(5))
qed

text \<open>A stage that writes to the first pages keeps what was loaded.\<close>

lemma app_mapped_write:
  assumes inv: "boot_inv m" "mem_inv m'" and fr: "frame low m m'"
    and root: "pml4 m' = pml4 m" "pml4_gpa m' = pml4_gpa m"
    and app: "app_mapped m bs" and n: "length bs \<le> 2 ^ 48"
  shows "app_mapped m' bs"
  unfolding app_mapped_def
proof (intro allI impI)
  fix i assume i: "i < length bs"
  let ?x = "0x100000000 + of_nat i :: u64"
  have a: "gbyte m ?x = Some (bs ! i)" "pte m (vpage ?x) \<noteq> 0" "gva_to_gpa e m ?x = Some ?x" for e
    using app i by (simp_all add: app_mapped_def)
  note w = boot_inv_write [OF inv fr root]
  have "unat ?x = 0x100000000 + i"
    using i n by (subst unat_add_of_nat) simp_all
  then have "\<not> low ?x"
    by (simp add: low_def)
  then have "gbyte m' ?x = Some (bs ! i)"
    using fr a(1) by (simp add: frame_def)
  moreover have "gva_to_gpa e m' ?x = gva_to_gpa e m ?x" for e
    using boot_invD(1,2) [OF inv(1)] boot_invD(1,2) [OF w(1)] w(2) a(2) by (intro mmu.same_page) simp_all
  ultimately show "gbyte m' ?x = Some (bs ! i) \<and> pte m' (vpage ?x) \<noteq> 0 \<and> (\<forall>e. gva_to_gpa e m' ?x = Some ?x)"
    using a w(2) by simp
qed

lemma frame_same_regions:
  assumes inv: "mem_inv m" "mem_inv m'" and regs: "mem_regions m' = mem_regions m"
    and out: "\<And>x. \<not> W x \<Longrightarrow> gbyte m' x = gbyte m x"
  shows "frame W m m'"
proof (rule frame_of_bytes)
  show "gbyte m' x \<noteq> None" if "gbyte m x \<noteq> None" for x
    using that unfolding gbyte_mapped_iff [OF inv(1)] gbyte_mapped_iff [OF inv(2)] regs .
qed (rule out)

text \<open>The arguments, where the kernel looks for them.\<close>

definition args_at :: "(u64 \<rightharpoonup> u8) \<Rightarrow> string list \<Rightarrow> bool" where
  "args_at f args \<longleftrightarrow> (\<forall>i < length args. \<exists>p. p = CONF_ARGS_ADDR + of_nat (strings_size (take i args))
        \<and> word64 (peek f (CONF_ARGV_ADDR + of_nat (8 * i)) 8) = p
        \<and> peek f p (Suc (length (args ! i))) = map of_char (args ! i) @ [0])"

lemma strings_size_nth:
  assumes "i < length args"
  shows "strings_size (take i args) + Suc (length (args ! i)) \<le> strings_size args"
proof -
  have "strings_size args = strings_size (take i args @ args ! i # drop (Suc i) args)"
    using assms by (simp add: id_take_nth_drop [symmetric])
  then show ?thesis
    by (simp add: strings_size_def length_c_string)
qed

lemma args_at_cong:
  assumes at: "args_at f args" and n: "length args \<le> 32" and size: "strings_size args \<le> 0xE00"
    and same: "\<And>x. 0x7100 \<le> unat x \<Longrightarrow> unat x < 0x8000 \<Longrightarrow> g x = f x"
  shows "args_at g args"
  unfolding args_at_def
proof (intro allI impI)
  fix i assume i: "i < length args"
  let ?k = "strings_size (take i args)"
  have le: "?k + Suc (length (args ! i)) \<le> 0xE00"
    using strings_size_nth [OF i] size by simp
  have eq: "peek g a l = peek f a l" if "0x7100 \<le> unat a" "unat a + l \<le> 0x8000" for a l
  proof (rule peek_cong, rule same)
    fix j assume "j < l"
    then have "unat (a + of_nat j) = unat a + j"
      using that by (intro unat_add_of_nat) simp
    with that \<open>j < l\<close> show "0x7100 \<le> unat (a + of_nat j)" "unat (a + of_nat j) < 0x8000"
      by simp_all
  qed
  have "unat (CONF_ARGS_ADDR + of_nat ?k) = 0x7200 + ?k"
    using le by (subst unat_add_of_nat) (simp_all add: CONF_ARGS_ADDR_def)
  moreover have "unat (CONF_ARGV_ADDR + of_nat (8 * i)) = 0x7100 + 8 * i"
    using i n by (subst unat_add_of_nat) (simp_all add: CONF_ARGV_ADDR_def)
  ultimately have "peek g (CONF_ARGV_ADDR + of_nat (8 * i)) 8 = peek f (CONF_ARGV_ADDR + of_nat (8 * i)) 8"
    "peek g (CONF_ARGS_ADDR + of_nat ?k) (Suc (length (args ! i)))
      = peek f (CONF_ARGS_ADDR + of_nat ?k) (Suc (length (args ! i)))"
    using i n le by (intro eq; simp)+
  then show "\<exists>p. p = CONF_ARGS_ADDR + of_nat ?k \<and> word64 (peek g (CONF_ARGV_ADDR + of_nat (8 * i)) 8) = p
      \<and> peek g p (Suc (length (args ! i))) = map of_char (args ! i) @ [0]"
    using at i by (auto simp: args_at_def)
qed

lemma args_stage:
  assumes inv: "boot_inv m" and n: "length args \<le> 32" and size: "strings_size args \<le> 0xE00"
  obtains m1 h where "setup_args m CONF_ARGV_ADDR CONF_ARGS_ADDR args = Some (True, m1)" "m1 = m\<lparr>heap := h\<rparr>"
    "mem_inv m1" "frame low m m1" "args_at (gbyte m1) args"
    "\<And>x. unat x < 0x7100 \<or> 0x8000 \<le> unat x \<Longrightarrow> gbyte m1 x = gbyte m x"
proof -
  have av: "avail (gbyte m) CONF_ARGV_ADDR (8 * length args)" "avail (gbyte m) CONF_ARGS_ADDR (strings_size args)"
    using n size by (auto intro!: low_avail [OF inv] simp: conf_defs)
  have sz: "strings_size args \<le> INT_MAX"
    using size by (simp add: INT_MAX_def)
  obtain m1 h where m1: "setup_args m CONF_ARGV_ADDR CONF_ARGS_ADDR args = Some (True, m1)" "mem_inv m1"
    "m1 = m\<lparr>heap := h\<rparr>" and at: "args_at (gbyte m1) args"
    and out: "\<forall>x. in_block CONF_ARGV_ADDR (8 * length args) x \<or> in_block CONF_ARGS_ADDR (strings_size args) x
        \<or> gbyte m1 x = gbyte m x"
    using setup_args_writes [OF boot_invD(1) [OF inv] n sz av] unfolding args_at_def by blast
  have same: "gbyte m1 x = gbyte m x" if "unat x < 0x7100 \<or> 0x8000 \<le> unat x" for x
    using out [rule_format, of x] that n size by (auto simp: in_block_iff conf_defs)
  have "frame low m m1"
    by (rule frame_same_regions [OF boot_invD(1) [OF inv] m1(2)]) (simp add: m1(3), rule same, simp add: low_def)
  with m1 at same show thesis
    by (intro that)
qed

text \<open>The words for the kernel.\<close>

lemma stack_stage:
  assumes inv: "boot_inv m" and ok: "hv_regs_ok H rg vc" and sp: "rg (world m) HV_X86_RSP = 0x6FFC"
  obtains m' where "push_start H argc e m = Some m'" "mem_inv m'" "frame low m m'"
    "pml4 m' = pml4 m" "pml4_gpa m' = pml4_gpa m"
    "rg (world m') = (rg (world m))(HV_X86_RSP := 0x6FE4)"
    "map word64 [peek (gbyte m') 0x6FE4 8, peek (gbyte m') 0x6FEC 8, peek (gbyte m') 0x6FF4 8]
      = [e, of_nat argc, CONF_ARGV_ADDR]"
    "\<And>x. unat x < 0x6FE4 \<or> 0x6FFC \<le> unat x \<Longrightarrow> gbyte m' x = gbyte m x"
proof -
  let ?sp = "0x6FE4 :: u64"
  have sp': "?sp = rg (world m) HV_X86_RSP - 24"
    using sp by simp
  have fit: "unat ?sp + 24 < 2 ^ 64" and av: "avail (gbyte m) ?sp 24"
    by (simp, rule low_avail [OF inv], simp)
  obtain m' where m': "push_start H argc e m = Some m'" "mem_inv m'"
    "rg (world m') = (rg (world m))(HV_X86_RSP := ?sp)"
    and wd: "word64 (peek (gbyte m') ?sp 8) = e" "word64 (peek (gbyte m') (?sp + 8) 8) = of_nat argc"
      "word64 (peek (gbyte m') (?sp + 16) 8) = CONF_ARGV_ADDR"
    and out: "\<forall>x. in_block ?sp 24 x \<or> gbyte m' x = gbyte m x"
    and sm: "same_memory (m\<lparr>heap := heap m'\<rparr>) m'"
    using push_start_writes [OF boot_invD(1) [OF inv] ok sp' fit av, of argc e] by blast
  note k = same_memoryD [OF sm, simplified]
  have same: "gbyte m' x = gbyte m x" if "unat x < 0x6FE4 \<or> 0x6FFC \<le> unat x" for x
    using out [rule_format, of x] that by (auto simp: in_block_iff)
  have fr: "frame low m m'"
    by (rule frame_same_regions [OF boot_invD(1) [OF inv] m'(2)]) (rule k, rule same, simp add: low_def)
  show thesis
    by (rule that [OF m'(1,2) fr]) (use k m'(3) wd same in simp_all)
qed

text \<open>Together.\<close>

lemma args_and_stack:
  assumes inv: "boot_inv m" and ok: "hv_regs_ok H rg vc" and sp: "rg (world m) HV_X86_RSP = 0x6FFC"
    and n: "length args \<le> 32" and size: "strings_size args \<le> 0xE00"
  obtains m1 m' where "setup_args m CONF_ARGV_ADDR CONF_ARGS_ADDR args = Some (True, m1)"
    "push_start H (length args) e m1 = Some m'"
    "mem_inv m'" "frame low m m'" "pml4 m' = pml4 m" "pml4_gpa m' = pml4_gpa m"
    "rg (world m') = (rg (world m))(HV_X86_RSP := 0x6FE4)"
    "map word64 [peek (gbyte m') 0x6FE4 8, peek (gbyte m') 0x6FEC 8, peek (gbyte m') 0x6FF4 8]
      = [e, of_nat (length args), CONF_ARGV_ADDR]"
    "args_at (gbyte m') args"
    "\<forall>x. unat x < 0x6FE4 \<or> 0x6FFC \<le> unat x \<and> unat x < 0x7100 \<or> 0x8000 \<le> unat x \<longrightarrow> gbyte m' x = gbyte m x"
proof -
  obtain m1 h where m1: "setup_args m CONF_ARGV_ADDR CONF_ARGS_ADDR args = Some (True, m1)" "m1 = m\<lparr>heap := h\<rparr>"
    "mem_inv m1" "frame low m m1" "args_at (gbyte m1) args"
    and out1: "\<And>x. unat x < 0x7100 \<or> 0x8000 \<le> unat x \<Longrightarrow> gbyte m1 x = gbyte m x"
    using args_stage [OF inv n size] by metis
  have inv1: "boot_inv m1" and sp1: "rg (world m1) HV_X86_RSP = 0x6FFC"
    using boot_inv_write(1) [OF inv m1(3,4)] sp by (simp_all add: m1(2))
  obtain m' where m': "push_start H (length args) e m1 = Some m'" "mem_inv m'" "frame low m1 m'"
    "pml4 m' = pml4 m1" "pml4_gpa m' = pml4_gpa m1"
    "rg (world m') = (rg (world m1))(HV_X86_RSP := 0x6FE4)"
    "map word64 [peek (gbyte m') 0x6FE4 8, peek (gbyte m') 0x6FEC 8, peek (gbyte m') 0x6FF4 8]
      = [e, of_nat (length args), CONF_ARGV_ADDR]"
    and out2: "\<And>x. unat x < 0x6FE4 \<or> 0x6FFC \<le> unat x \<Longrightarrow> gbyte m' x = gbyte m1 x"
    using stack_stage [OF inv1 ok sp1, of "length args" e] by metis
  have "args_at (gbyte m') args"
    by (rule args_at_cong [OF m1(5) n size]) (simp add: out2)
  moreover have "frame low m m'"
    using m1(4) m'(3) by (rule frame_trans)
  ultimately show thesis
    using m1(1) m' by (intro that [of m1 m']) (auto simp: m1(2) out1 [unfolded m1(2)] out2 [unfolded m1(2)])
qed

text \<open>What the setup and the kernel's loading wrote is still there at the end.\<close>

lemma early_bytes:
  assumes ks: "length ks \<le> 0x8000"
    and load: "\<And>x. low x \<Longrightarrow> \<not> in_block 0x8000 (length ks) x \<Longrightarrow> f2 x = f1 x"
    and kernel: "\<And>i. i < length ks \<Longrightarrow> f2 (0x8000 + of_nat i) = Some (ks ! i)"
    and out: "\<forall>x. unat x < 0x6FE4 \<or> 0x6FFC \<le> unat x \<and> unat x < 0x7100 \<or> 0x8000 \<le> unat x \<longrightarrow> f3 x = f2 x"
  shows "peek f3 0 32 = peek f1 0 32" and "peek f3 0x6FFC 4 = peek f1 0x6FFC 4"
    and "i < length ks \<Longrightarrow> f3 (CONF_START_ADDR + of_nat i) = Some (ks ! i)"
proof -
  have early: "f3 x = f1 x" if "unat x < 0x6FE4 \<or> 0x6FFC \<le> unat x \<and> unat x < 0x7000" for x
  proof -
    have "\<not> in_block 0x8000 (length ks) x"
      using that ks by (subst in_block_iff) auto
    moreover have "low x"
      using that by (auto simp: low_def)
    ultimately show ?thesis
      using out [rule_format, of x] load that by auto
  qed
  have "unat (0 + of_nat i :: u64) = i" if "i < 32" for i
    using that by (subst unat_add_of_nat) simp_all
  moreover have "unat (0x6FFC + of_nat i :: u64) = 0x6FFC + i" if "i < 4" for i
    using that by (subst unat_add_of_nat) simp_all
  ultimately show "peek f3 0 32 = peek f1 0 32" "peek f3 0x6FFC 4 = peek f1 0x6FFC 4"
    by (intro peek_cong early; simp)+
  show "f3 (CONF_START_ADDR + of_nat i) = Some (ks ! i)" if "i < length ks"
  proof -
    have "unat (0x8000 + of_nat i :: u64) = 0x8000 + i"
      using that ks by (subst unat_add_of_nat) simp_all
    then show ?thesis
      using out kernel [OF that] by (simp add: CONF_START_ADDR_def)
  qed
qed


section \<open>A concrete boot\<close>

lemma demo_map_ok: "hv_map_ok demo_hv dw_regs"
  by (simp add: hv_map_ok_def demo_hv_def)

definition boot_outside :: "(demo_world, u8 list) outside" where
  "boot_outside = demo_outside\<lparr>files := demo_files demo_image\<rparr>"

lemma boot_outside_fields [simp]:
  "hv boot_outside = demo_hv" "alloc boot_outside = demo_host" "files boot_outside = demo_files demo_image"
  "headers boot_outside = apple_headers" "u_load demo_main_locals = demo_load_locals" "u_raw demo_main_locals = 0"
  by (simp_all add: boot_outside_def demo_outside_def demo_main_locals_def)

lemma demo_main_load:
  fixes m :: "(demo_world, u8 list, 'z) process_scheme"
  assumes m: "demo_ready m" and inv: "boot_inv m"
  obtains m' where "main_load boot_outside demo_main_locals k None p m = Some (Some 0x100000f50, m')"
    "failures m' = failures m"
proof -
  have F: "files_ok (demo_files demo_image) (\<lambda>p. Some demo_image) (\<lambda>s f. Some demo_image)"
    by (rule demo_files_ok) simp
  have size: "length demo_image \<le> INT_MAX"
    by (simp add: INT_MAX_def)
  have mm: "\<forall>h f. snd h = heap m \<longrightarrow> fst (fo_mmap (demo_files demo_image) h (of_nat (length demo_image)) False f) \<noteq> -1"
    using demo_mmap [of _ demo_image] m by (simp add: demo_ready_def)
  obtain r m1 where run: "load_raw (demo_files demo_image) 0 m (Some k) CONF_START_ADDR = Some (r, m1)" "mem_inv m1"
      "host_step m m1"
    and r: "r = 0 \<or> fst (fo_open (demo_files demo_image) (host m) k) = -1
        \<or> (\<exists>h. sint (fst (fo_stat (demo_files demo_image) h k 0)) < 0)
        \<or> \<not> avail (gbyte m) CONF_START_ADDR (length demo_image)"
    using load_raw_run [OF boot_invD(1) [OF inv] F refl size mm, where u = 0 and p = k and gpa = CONF_START_ADDR]
    by (elim exE conjE) (rule that, auto)
  have "avail (gbyte m) CONF_START_ADDR (length demo_image)"
    by (rule low_avail [OF inv]) (simp add: CONF_START_ADDR_def)
  with r have r0: "r = 0"
    by (auto simp: demo_files_def)
  note st = host_stepD [OF run(3)]
  have "heap m1 a = None \<longleftrightarrow> heap m a = None" for a
    using st(7) by (metis domIff)
  then have "demo_ready m1"
    using m run(2) by (simp add: demo_ready_def demo_fresh_def st)
  then obtain m' where "load_mach_obj (demo_files demo_image) apple_headers demo_hv demo_host demo_load_locals
      m1 (Some p) (u_entry_gva demo_main_locals) = Some (0, 0x100000f50, m')" "failures m' = failures m1"
    using demo_load_from by blast
  with run(1) r0 show thesis
    by (intro that [of m']) (simp_all add: main_load_def st)
qed


section \<open>No undefined behaviour\<close>


text \<open>A plugin that answers every \<open>write\<close> itself.\<close>

definition boot_dl :: "u8 list dl_ops" where
  "boot_dl = \<lparr>dlopen = (\<lambda>h p. (1, h)),
     dlsym = (\<lambda>h hd. Some (\<lambda>h ops. (0, ops\<lparr>cb_write := Some (\<lambda>h fd p n old. (0, n, h))\<rparr>, h))),
     dlclose = (\<lambda>h hd. h)\<rparr>"

lemma boot_dl_ok: "dl_ok boot_dl"
  by (simp add: dl_ok_def boot_dl_def plugin_ok_def)

lemma demo_image_readable: "image_readable apple_headers demo_host 0 demo_image"
proof -
  have "overlay bytes32 word32 0 (take 4 demo_image) = 0xfeedfacf"
    using codec32.overlay_full [of "take 4 demo_image" 0] demo_header_facts(1) [of 1 demo_main]
    by (simp add: demo_image_def demo_header_facts)
  moreover have "file_buf demo_image 0 32 = demo_header 1"
    by (simp add: file_buf_def demo_image_def demo_header_facts)
  ultimately show ?thesis
    by (simp add: image_readable_def apple_headers_ok header_ncmds_def header_size_def is_magic_64_def
        should_swap_bytes_def demo_header_facts INT_MAX_def)
qed


end
